theory Spec2Isabelle
  imports Complex_Main
begin

section \<open>PostPilot test-flow engine: data model\<close>

text \<open>
  The engine lives in three modules: \<^verbatim>\<open>browser.ts\<close> (the browser cache and the humanised
  helpers), \<^verbatim>\<open>testing/actions.ts\<close> (\<^verbatim>\<open>executeStep\<close>, the interpreter of one step; its
  text follows that of \<^verbatim>\<open>platforms/twitter.ts\<close> in the sources at hand) and
  \<^verbatim>\<open>testing/runner.ts\<close> (\<^verbatim>\<open>runTestFlow\<close>, the loop over a flow). \<^verbatim>\<open>config.ts\<close> loads a flow
  and \<^verbatim>\<open>db.ts\<close> records a run.

  JavaScript values are modelled as follows. Every value has the type that the
  TypeScript interfaces give it. An optional field is an \<open>option\<close> (\<open>None\<close> is
  \<^verbatim>\<open>undefined\<close>). A \<^verbatim>\<open>number\<close> holding milliseconds is an \<open>int\<close>; the only falsy number
  of the model is \<open>0\<close>. A string is a \<open>string\<close>; the only falsy string is the empty one.
  Browser and page objects are handles. An \<^verbatim>\<open>async\<close> function is a function from the
  world to a result, or an exception, and the world after it.
\<close>

type_synonym Browser = nat
type_synonym Page = nat

text \<open>\<^verbatim>\<open>interface TestStep\<close> of \<^verbatim>\<open>actions.ts\<close>, all sixteen fields optional.\<close>

record TestStep =
  goto :: "string option"
  click :: "string option"
  type :: "string option"
  "text" :: "string option"
  waitFor :: "string option"
  timeout :: "int option"
  screenshot :: "string option"
  verify :: "string option"
  contains :: "string option"
  wait :: "int option"
  scroll :: "string option"
  hover :: "string option"
  select :: "string option"
  "value" :: "string option"
  press :: "string option"
  evaluate :: "string option"

text \<open>\<^verbatim>\<open>interface StepResult\<close> of \<^verbatim>\<open>actions.ts\<close>.\<close>

record StepResult =
  step :: TestStep
  success :: bool
  duration :: int
  error :: "string option"
  screenshotPath :: "string option"

text \<open>\<^verbatim>\<open>interface TestFlow\<close> and \<^verbatim>\<open>interface RunTestOptions\<close> of \<^verbatim>\<open>runner.ts\<close>.\<close>

record TestFlow =
  name :: string
  baseUrl :: "string option"
  steps :: "TestStep list"

record RunTestOptions =
  flowPath :: "string option"
  flow :: "TestFlow option"
  baseUrl :: "string option"
  screenshotDir :: "string option"
  headless :: "bool option"
  stopOnFailure :: "bool option"
  jsonOutput :: "bool option"

text \<open>\<^verbatim>\<open>interface TestResults\<close> of \<^verbatim>\<open>reporter.ts\<close>.\<close>

record TestResults =
  name :: string
  baseUrl :: string
  steps :: "StepResult list"
  passed :: nat
  failed :: nat
  total :: nat
  duration :: int
  screenshotDir :: string

text \<open>\<^verbatim>\<open>interface TestRecord\<close> of \<^verbatim>\<open>db.ts\<close> (the \<^verbatim>\<open>id\<close> is assigned by the database).\<close>

record TestRecord =
  flow_name :: string
  base_url :: string
  passed :: nat
  failed :: nat
  total :: nat
  duration_ms :: int
  created_at :: string

text \<open>\<^verbatim>\<open>interface BrowserOptions\<close> of \<^verbatim>\<open>browser.ts\<close>.\<close>

record BrowserOptions =
  headless :: "bool option"
  slowMo :: "int option"
  userDataDir :: "string option"

section \<open>Exceptions and the outside world\<close>

text \<open>
  A thrown value is an \<^verbatim>\<open>Error\<close> object: its name and its message. \<^verbatim>\<open>String(error)\<close> is
  \<^verbatim>\<open>Error.prototype.toString\<close>.
\<close>

datatype js_error = JsError (err_name: string) (message: string)

definition String_of_error :: "js_error \<Rightarrow> string" where
  "String_of_error e =
     (if err_name e = [] then message e
      else if message e = [] then err_name e
      else err_name e @ '': '' @ message e)"

text \<open>
  Every call that leaves the engine (Puppeteer, the file system, the database, the
  console, timers) is an event. The world keeps the module variable \<^verbatim>\<open>browserInstance\<close> of
  \<^verbatim>\<open>browser.ts\<close>, the events issued so far, and the state \<open>ext\<close> of everything outside,
  which only the environment's own operations change.
\<close>

datatype event =
    PuppeteerLaunch bool int "string option"
  | BrowserNewPage Browser
  | BrowserClose Browser
  | PageSetUserAgent Page string
  | PageEvaluateOnNewDocument Page
  | PageGoto Page string int
  | PageWaitForSelector Page string bool "int option"
  | PageClick Page string
  | PageClearValue Page string
  | PageType Page string char real
  | PageEvalTextContent Page string
  | PageScrollIntoView Page string
  | PageHover Page string
  | PageSelect Page string string
  | KeyboardPress Page string
  | PageEvaluate Page string
  | PageScreenshot Page string
  | PageClose Page
  | SetTimeout int
  | FsMkdirSync string
  | ReadFlowFile string
  | RecordTestRun TestRecord
  | PrintTestHeader string string
  | ReportStep StepResult nat
  | ReportSummary TestResults
  | ConsoleLogJsonReport TestResults string

record 'e world =
  browserInstance :: "Browser option"
  trace :: "event list"
  ext :: 'e

text \<open>
  The environment: what the collaborators answer. Calls whose value the engine uses have
  a field of their own; every other call goes through \<open>perform\<close> and either returns or
  throws. Two built-ins of the runtime are parameters as well: \<open>JSON_stringify\<close>, because
  the key order of a step object is not part of \<open>TestStep\<close>, and \<open>String_toLowerCase\<close>,
  which is \<^verbatim>\<open>String.prototype.toLowerCase\<close>: it follows the case mappings of Unicode, is
  not limited to the letters \<^verbatim>\<open>A\<close> to \<^verbatim>\<open>Z\<close> and does not work character by character, and
  nothing in the repository fixes it.
\<close>

record 'e env =
  puppeteer_launch :: "bool \<Rightarrow> int \<Rightarrow> string option \<Rightarrow> 'e \<Rightarrow> (js_error + Browser) \<times> 'e"
  browser_newPage :: "Browser \<Rightarrow> 'e \<Rightarrow> (js_error + Page) \<times> 'e"
  page_eval_textContent :: "Page \<Rightarrow> string \<Rightarrow> 'e \<Rightarrow> (js_error + string) \<times> 'e"
  readFlowFile :: "string \<Rightarrow> 'e \<Rightarrow> (js_error + TestFlow) \<times> 'e"
  perform :: "event \<Rightarrow> 'e \<Rightarrow> (js_error + unit) \<times> 'e"
  fs_existsSync :: "string \<Rightarrow> 'e \<Rightarrow> bool"
  Date_now :: "'e \<Rightarrow> int"
  Date_toISOString :: "'e \<Rightarrow> string"
  Math_random :: "'e \<Rightarrow> real \<times> 'e"
  JSON_stringify :: "TestStep \<Rightarrow> string"
  String_toLowerCase :: "string \<Rightarrow> string"

type_synonym ('a, 'e) io = "'e world \<Rightarrow> (js_error + 'a) \<times> 'e world"

definition return :: "'a \<Rightarrow> ('a, 'e) io" where
  "return x w = (Inr x, w)"

definition throw :: "js_error \<Rightarrow> ('a, 'e) io" where
  "throw e w = (Inl e, w)"

text \<open>\<open>await m k\<close>: run \<open>m\<close>; an exception of \<open>m\<close> skips \<open>k\<close>.\<close>

definition await :: "('a, 'e) io \<Rightarrow> ('a \<Rightarrow> ('b, 'e) io) \<Rightarrow> ('b, 'e) io" where
  "await m k w = (case m w of (Inl e, w') \<Rightarrow> (Inl e, w') | (Inr x, w') \<Rightarrow> k x w')"

definition try_catch :: "('a, 'e) io \<Rightarrow> (js_error \<Rightarrow> ('a, 'e) io) \<Rightarrow> ('a, 'e) io" where
  "try_catch m h w = (case m w of (Inl e, w') \<Rightarrow> h e w' | (Inr x, w') \<Rightarrow> (Inr x, w'))"

text \<open>
  \<open>try_finally m f\<close>: \<open>f\<close> runs whatever \<open>m\<close> did; an exception of \<open>f\<close> replaces the
  outcome of \<open>m\<close>.
\<close>

definition try_finally :: "('a, 'e) io \<Rightarrow> (unit, 'e) io \<Rightarrow> ('a, 'e) io" where
  "try_finally m f w =
     (case m w of (r, w') \<Rightarrow>
        (case f w' of (Inl e, w'') \<Rightarrow> (Inl e, w'') | (Inr u, w'') \<Rightarrow> (r, w'')))"

text \<open>An external call: the event is recorded and the environment answers.\<close>

definition call :: "event \<Rightarrow> ('e \<Rightarrow> (js_error + 'a) \<times> 'e) \<Rightarrow> ('a, 'e) io" where
  "call ev op w =
     (case op (ext w) of (r, x) \<Rightarrow> (r, w\<lparr>trace := trace w @ [ev], ext := x\<rparr>))"

definition do :: "'e env \<Rightarrow> event \<Rightarrow> (unit, 'e) io" where
  "do env ev = call ev (perform env ev)"

text \<open>\<^verbatim>\<open>console.log\<close> of the reporter: recorded, never fails, changes nothing outside.\<close>

definition console :: "event \<Rightarrow> (unit, 'e) io" where
  "console ev w = (Inr (), w\<lparr>trace := trace w @ [ev]\<rparr>)"

definition now :: "'e env \<Rightarrow> 'e world \<Rightarrow> int" where
  "now env w = Date_now env (ext w)"

section \<open>browser.ts\<close>

text \<open>
  \<^verbatim>\<open>launchBrowser\<close>: a cached browser is returned as it is; otherwise one is launched
  and cached.
\<close>

definition launchBrowser :: "'e env \<Rightarrow> BrowserOptions \<Rightarrow> (Browser, 'e) io" where
  "launchBrowser env options w =
     (case browserInstance w of
        Some b \<Rightarrow> (Inr b, w)
      | None \<Rightarrow>
          (let headless = (case BrowserOptions.headless options of None \<Rightarrow> True | Some h \<Rightarrow> h);
               slowMo = (case BrowserOptions.slowMo options of None \<Rightarrow> 0 | Some s \<Rightarrow> s);
               userDataDir = BrowserOptions.userDataDir options
           in await (call (PuppeteerLaunch headless slowMo userDataDir)
                       (puppeteer_launch env headless slowMo userDataDir))
                (\<lambda>b w'. (Inr b, w'\<lparr>browserInstance := Some b\<rparr>)) w))"

definition closeBrowser :: "'e env \<Rightarrow> (unit, 'e) io" where
  "closeBrowser env w =
     (case browserInstance w of
        Some b \<Rightarrow>
          await (do env (BrowserClose b)) (\<lambda>u w'. (Inr (), w'\<lparr>browserInstance := None\<rparr>)) w
      | None \<Rightarrow> (Inr (), w))"

definition userAgent :: string where
  "userAgent = ''Mozilla/5.0 (Macintosh; Intel Mac OS X 10_15_7) AppleWebKit/537.36 (KHTML, like Gecko) Chrome/120.0.0.0 Safari/537.36''"

definition newPage :: "'e env \<Rightarrow> Browser \<Rightarrow> (Page, 'e) io" where
  "newPage env browser =
     await (call (BrowserNewPage browser) (browser_newPage env browser)) (\<lambda>page.
     await (do env (PageSetUserAgent page userAgent)) (\<lambda>u.
     await (do env (PageEvaluateOnNewDocument page)) (\<lambda>u.
     return page)))"

definition sleep :: "'e env \<Rightarrow> int \<Rightarrow> (unit, 'e) io" where
  "sleep env ms = do env (SetTimeout ms)"

definition randomDelay :: "'e env \<Rightarrow> int \<Rightarrow> int \<Rightarrow> (unit, 'e) io" where
  "randomDelay env min max w =
     (case Math_random env (ext w) of (r, x) \<Rightarrow>
        sleep env (\<lfloor>r * of_int (max - min + 1)\<rfloor> + min) (w\<lparr>ext := x\<rparr>))"
  for min max

text \<open>The loop of \<^verbatim>\<open>humanType\<close>: one \<^verbatim>\<open>page.type\<close> per character, each with a random delay.\<close>

fun humanType_chars :: "'e env \<Rightarrow> Page \<Rightarrow> string \<Rightarrow> string \<Rightarrow> (unit, 'e) io" where
  "humanType_chars env page selector [] w = (Inr (), w)"
| "humanType_chars env page selector (c # cs) w =
     (case Math_random env (ext w) of (r, x) \<Rightarrow>
        await (do env (PageType page selector c (r * 100 + 50)))
          (\<lambda>u. humanType_chars env page selector cs) (w\<lparr>ext := x\<rparr>))"

definition humanType :: "'e env \<Rightarrow> Page \<Rightarrow> string \<Rightarrow> string \<Rightarrow> (unit, 'e) io" where
  "humanType env page selector txt =
     await (do env (PageWaitForSelector page selector False None)) (\<lambda>u.
     await (do env (PageClick page selector)) (\<lambda>u.
     humanType_chars env page selector txt))"

text \<open>\<^verbatim>\<open>timestamp.replace(/[:.]/g, '-')\<close>\<close>

definition replace_colon_dot :: "string \<Rightarrow> string" where
  "replace_colon_dot s = map (\<lambda>c. if c = CHR '':'' \<or> c = CHR ''.'' then CHR ''-'' else c) s"

definition takeScreenshot :: "'e env \<Rightarrow> Page \<Rightarrow> string \<Rightarrow> string \<Rightarrow> (string, 'e) io" where
  "takeScreenshot env page nm dir w =
     (let timestamp = replace_colon_dot (Date_toISOString env (ext w));
          filename = nm @ ''-'' @ timestamp @ ''.png'';
          filepath = dir @ ''/'' @ filename
      in await (do env (PageScreenshot page filepath)) (\<lambda>u. return filepath) w)"

definition scrollToElement :: "'e env \<Rightarrow> Page \<Rightarrow> string \<Rightarrow> (unit, 'e) io" where
  "scrollToElement env page selector =
     await (do env (PageWaitForSelector page selector False None)) (\<lambda>u.
     await (do env (PageScrollIntoView page selector)) (\<lambda>u.
     sleep env 500))"

section \<open>testing/actions.ts\<close>

definition startsWith :: "string \<Rightarrow> string \<Rightarrow> bool" where
  "startsWith s p = (take (length p) s = p)"

text \<open>\<^verbatim>\<open>String.prototype.includes\<close>: does \<open>p\<close> occur in \<open>s\<close> as a contiguous run?\<close>

fun includes_str :: "string \<Rightarrow> string \<Rightarrow> bool" where
  "includes_str [] p = (p = [])"
| "includes_str (c # s) p = (startsWith (c # s) p \<or> includes_str s p)"

text \<open>\<^verbatim>\<open>text.slice(0, n)\<close>\<close>

definition slice0 :: "nat \<Rightarrow> string \<Rightarrow> string" where
  "slice0 n s = take n s"

text \<open>\<^verbatim>\<open>step.timeout || d\<close>: the left operand unless it is \<^verbatim>\<open>undefined\<close> or falsy.\<close>

definition or_number :: "int option \<Rightarrow> int \<Rightarrow> int" where
  "or_number t d = (case t of None \<Rightarrow> d | Some n \<Rightarrow> if n = 0 then d else n)"

definition resolveSelector :: "string \<Rightarrow> string" where
  \<open>resolveSelector selector =
     (if startsWith selector ''text='' then
        ''xpath=//*[contains(text(),"'' @ drop 5 selector @ ''")]''
      else if startsWith selector ''xpath='' then selector
      else selector)\<close>


text \<open>
  The \<^verbatim>\<open>try\<close> block of \<^verbatim>\<open>executeStep\<close>: the first branch whose condition holds runs, and
  returns the \<^verbatim>\<open>result\<close> object as the branch leaves it. No branch assigns to \<^verbatim>\<open>result\<close>
  before its last awaited call, so an exception leaves \<^verbatim>\<open>result\<close> as it was created.
\<close>

definition executeStep_try ::
  "'e env \<Rightarrow> Page \<Rightarrow> TestStep \<Rightarrow> string \<Rightarrow> string \<Rightarrow> StepResult \<Rightarrow> (StepResult, 'e) io" where
  \<open>executeStep_try env page step baseUrl screenshotDir result =
    (if goto step \<noteq> None then
       (let url = (if startsWith (the (goto step)) ''http'' then the (goto step)
                   else baseUrl @ the (goto step)) in
        await (do env (PageGoto page url (or_number (timeout step) 30000))) (\<lambda>u.
        return (result\<lparr>success := True\<rparr>)))
     else if click step \<noteq> None then
       (let selector = resolveSelector (the (click step)) in
        await (do env (PageWaitForSelector page selector True
                 (Some (or_number (timeout step) 10000)))) (\<lambda>u.
        await (randomDelay env 100 300) (\<lambda>u.
        await (do env (PageClick page selector)) (\<lambda>u.
        return (result\<lparr>success := True\<rparr>)))))
     else if type step \<noteq> None \<and> text step \<noteq> None then
       (let selector = resolveSelector (the (type step)) in
        await (do env (PageWaitForSelector page selector True
                 (Some (or_number (timeout step) 10000)))) (\<lambda>u.
        await (do env (PageClick page selector)) (\<lambda>u.
        await (do env (PageClearValue page selector)) (\<lambda>u.
        await (humanType env page selector (the (text step))) (\<lambda>u.
        return (result\<lparr>success := True\<rparr>))))))
     else if waitFor step \<noteq> None then
       (let selector = resolveSelector (the (waitFor step)) in
        await (do env (PageWaitForSelector page selector True
                 (Some (or_number (timeout step) 30000)))) (\<lambda>u.
        return (result\<lparr>success := True\<rparr>)))
     else if screenshot step \<noteq> None then
        await (takeScreenshot env page (the (screenshot step)) screenshotDir) (\<lambda>path.
        return (result\<lparr>screenshotPath := Some path, success := True\<rparr>))
     else if verify step \<noteq> None \<and> contains step \<noteq> None then
       (let selector = resolveSelector (the (verify step)) in
        await (do env (PageWaitForSelector page selector False
                 (Some (or_number (timeout step) 10000)))) (\<lambda>u.
        await (call (PageEvalTextContent page selector)
                 (page_eval_textContent env page selector)) (\<lambda>txt.
        if includes_str (String_toLowerCase env txt)
             (String_toLowerCase env (the (contains step))) then
          return (result\<lparr>success := True\<rparr>)
        else
          return (result\<lparr>success := False,
            error := Some (''Expected "'' @ the (contains step) @ ''" but found "''
                           @ slice0 100 txt @ ''"'')\<rparr>))))
     else if wait step \<noteq> None then
        await (sleep env (the (wait step))) (\<lambda>u.
        return (result\<lparr>success := True\<rparr>))
     else if scroll step \<noteq> None then
       (let selector = resolveSelector (the (scroll step)) in
        await (scrollToElement env page selector) (\<lambda>u.
        return (result\<lparr>success := True\<rparr>)))
     else if hover step \<noteq> None then
       (let selector = resolveSelector (the (hover step)) in
        await (do env (PageWaitForSelector page selector True
                 (Some (or_number (timeout step) 10000)))) (\<lambda>u.
        await (do env (PageHover page selector)) (\<lambda>u.
        return (result\<lparr>success := True\<rparr>))))
     else if select step \<noteq> None \<and> value step \<noteq> None then
       (let selector = resolveSelector (the (select step)) in
        await (do env (PageWaitForSelector page selector False
                 (Some (or_number (timeout step) 10000)))) (\<lambda>u.
        await (do env (PageSelect page selector (the (value step)))) (\<lambda>u.
        return (result\<lparr>success := True\<rparr>))))
     else if press step \<noteq> None then
        await (do env (KeyboardPress page (the (press step)))) (\<lambda>u.
        return (result\<lparr>success := True\<rparr>))
     else if evaluate step \<noteq> None then
        await (do env (PageEvaluate page (the (evaluate step)))) (\<lambda>u.
        return (result\<lparr>success := True\<rparr>))
     else
        return (result\<lparr>error := Some (''Unknown step type: '' @ JSON_stringify env step)\<rparr>))\<close>
  for step baseUrl screenshotDir

text \<open>
  The \<^verbatim>\<open>result\<close> object as \<^verbatim>\<open>executeStep\<close> creates it:
  \<^verbatim>\<open>{ step, success: false, duration: 0 }\<close>.
\<close>

definition newResult :: "TestStep \<Rightarrow> StepResult" where
  "newResult step = \<lparr>StepResult.step = step, success = False, StepResult.duration = 0,
     error = None, screenshotPath = None\<rparr>"
  for step

text \<open>
  \<^verbatim>\<open>executeStep\<close>: the clock is read, the \<^verbatim>\<open>try\<close> block runs, the \<^verbatim>\<open>catch\<close> clause turns an
  exception into a failed result, and the duration is stored.
\<close>

definition executeStep ::
  "'e env \<Rightarrow> Page \<Rightarrow> TestStep \<Rightarrow> string \<Rightarrow> string \<Rightarrow> (StepResult, 'e) io" where
  "executeStep env page step baseUrl screenshotDir w =
     (let startTime = now env w;
          result = newResult step
      in await (try_catch (executeStep_try env page step baseUrl screenshotDir result)
                  (\<lambda>error. return (result\<lparr>success := False,
                                            error := Some (String_of_error error)\<rparr>)))
           (\<lambda>result w'. (Inr (result\<lparr>StepResult.duration := now env w' - startTime\<rparr>), w')) w)"
  for step baseUrl screenshotDir

text \<open>
  The branch of the \<^verbatim>\<open>if\<close>/\<^verbatim>\<open>else if\<close> chain of \<^verbatim>\<open>executeStep\<close> that a step selects: the
  conditions of the chain, in its order.
\<close>

datatype action =
    Navigate | Click | Type | WaitFor | Screenshot | Verify | Wait | Scroll | Hover | Select
  | PressKey | Evaluate | Unrecognized

definition action_of :: "TestStep \<Rightarrow> action" where
  "action_of step =
    (if goto step \<noteq> None then Navigate
     else if click step \<noteq> None then Click
     else if type step \<noteq> None \<and> text step \<noteq> None then Type
     else if waitFor step \<noteq> None then WaitFor
     else if screenshot step \<noteq> None then Screenshot
     else if verify step \<noteq> None \<and> contains step \<noteq> None then Verify
     else if wait step \<noteq> None then Wait
     else if scroll step \<noteq> None then Scroll
     else if hover step \<noteq> None then Hover
     else if select step \<noteq> None \<and> value step \<noteq> None then Select
     else if press step \<noteq> None then PressKey
     else if evaluate step \<noteq> None then Evaluate
     else Unrecognized)"
  for step

text \<open>
  The documented default timeouts: 30000 ms for navigate and waitFor, 10000 ms for
  click, type, hover, select and verify; the other actions pass no timeout.
\<close>

definition default_timeout :: "action \<Rightarrow> int option" where
  "default_timeout a =
     (if a = Navigate \<or> a = WaitFor then Some 30000
      else if a = Click \<or> a = Type \<or> a = Hover \<or> a = Select \<or> a = Verify then Some 10000
      else None)"

text \<open>The timeout that a driver call carries, if it carries one.\<close>

definition timeout_of :: "event \<Rightarrow> int option" where
  "timeout_of ev =
     (case ev of PageGoto p url t \<Rightarrow> Some t
               | PageWaitForSelector p sel vis t \<Rightarrow> t
               | _ \<Rightarrow> None)"

text \<open>
  Containment under case-insensitive comparison, in the words of the specification: the
  text, case-insensitively, contains the expected substring, case-insensitively. Both
  strings are lowered by the \<^verbatim>\<open>toLowerCase\<close> of the runtime, and the lowered expected string
  is a contiguous run of the lowered text.
\<close>

definition contains_ignoring_case :: "(string \<Rightarrow> string) \<Rightarrow> string \<Rightarrow> string \<Rightarrow> bool" where
  "contains_ignoring_case toLowerCase txt expected =
     (\<exists>before after. toLowerCase txt = before @ toLowerCase expected @ after)"

section \<open>config.ts and testing/runner.ts\<close>

definition loadTestFlow :: "'e env \<Rightarrow> string \<Rightarrow> (TestFlow, 'e) io" where
  "loadTestFlow env filepath w =
     (if \<not> fs_existsSync env filepath (ext w) then
        throw (JsError ''Error'' (''Test flow file not found: '' @ filepath)) w
      else call (ReadFlowFile filepath) (readFlowFile env filepath) w)"

text \<open>Truthiness of an optional string: defined and not empty.\<close>

definition truthy :: "string option \<Rightarrow> bool" where
  "truthy s = (case s of None \<Rightarrow> False | Some x \<Rightarrow> x \<noteq> [])"

text \<open>The effective base URL: \<^verbatim>\<open>overrideBaseUrl || flow.baseUrl || ''\<close>.\<close>

definition effectiveBaseUrl :: "string option \<Rightarrow> TestFlow \<Rightarrow> string" where
  "effectiveBaseUrl overrideBaseUrl flow =
     (if truthy overrideBaseUrl then the overrideBaseUrl
      else if truthy (TestFlow.baseUrl flow) then the (TestFlow.baseUrl flow)
      else [])"
  for flow

text \<open>
  The settings of one run, as \<^verbatim>\<open>runTestFlow\<close> has them once the flow is loaded: the flow, the
  base URL, the screenshot directory and the three flags.
\<close>

type_synonym settings = "TestFlow \<times> string \<times> string \<times> bool \<times> bool \<times> bool"

text \<open>
  \<^verbatim>\<open>runTestFlow\<close> up to the header: the defaults of the options, the flow (given or
  loaded), the base URL, the screenshot directory, the header.
\<close>

definition runTestFlow_prepare :: "'e env \<Rightarrow> RunTestOptions \<Rightarrow> (settings, 'e) io" where
  "runTestFlow_prepare env options =
     (let flowPath = RunTestOptions.flowPath options;
          providedFlow = RunTestOptions.flow options;
          overrideBaseUrl = RunTestOptions.baseUrl options;
          screenshotDir = (case RunTestOptions.screenshotDir options of
                             None \<Rightarrow> ''./screenshots'' | Some d \<Rightarrow> d);
          headless = (case RunTestOptions.headless options of None \<Rightarrow> True | Some b \<Rightarrow> b);
          stopOnFailure = (case RunTestOptions.stopOnFailure options of
                             None \<Rightarrow> False | Some b \<Rightarrow> b);
          jsonOutput = (case RunTestOptions.jsonOutput options of None \<Rightarrow> False | Some b \<Rightarrow> b)
      in
      await (if providedFlow \<noteq> None then return (the providedFlow)
             else if truthy flowPath then loadTestFlow env (the flowPath)
             else throw (JsError ''Error'' ''Either flowPath or flow must be provided'')) (\<lambda>flow.
      let baseUrl = effectiveBaseUrl overrideBaseUrl flow in
      await (\<lambda>w. if \<not> fs_existsSync env screenshotDir (ext w)
                  then do env (FsMkdirSync screenshotDir) w else return () w) (\<lambda>u.
      await (if \<not> jsonOutput then console (PrintTestHeader (TestFlow.name flow) baseUrl)
             else return ()) (\<lambda>u.
      return (flow, baseUrl, screenshotDir, headless, stopOnFailure, jsonOutput)))))"

text \<open>The driver session of a run: \<^verbatim>\<open>launchBrowser({ headless })\<close>, then \<^verbatim>\<open>newPage(browser)\<close>.\<close>

definition runTestFlow_acquire :: "'e env \<Rightarrow> bool \<Rightarrow> (Browser \<times> Page, 'e) io" where
  "runTestFlow_acquire env headless =
     await (launchBrowser env
              \<lparr>BrowserOptions.headless = Some headless, slowMo = None, userDataDir = None\<rparr>)
       (\<lambda>browser.
     await (newPage env browser) (\<lambda>page.
     return (browser, page)))"
  for headless

text \<open>
  The \<^verbatim>\<open>for\<close> loop of \<^verbatim>\<open>runTestFlow\<close>, from index \<open>i\<close> over the steps still to run, with
  \<^verbatim>\<open>stepResults\<close>, \<^verbatim>\<open>passed\<close> and \<^verbatim>\<open>failed\<close> as they stand.
\<close>

fun runTestFlow_loop ::
  "'e env \<Rightarrow> Page \<Rightarrow> string \<Rightarrow> string \<Rightarrow> bool \<Rightarrow> bool \<Rightarrow> nat \<Rightarrow> TestStep list
     \<Rightarrow> StepResult list \<times> nat \<times> nat \<Rightarrow> (StepResult list \<times> nat \<times> nat, 'e) io" where
  "runTestFlow_loop env page baseUrl screenshotDir jsonOutput stopOnFailure i []
       (stepResults, passed, failed) = return (stepResults, passed, failed)"
  for baseUrl screenshotDir jsonOutput stopOnFailure passed failed
| "runTestFlow_loop env page baseUrl screenshotDir jsonOutput stopOnFailure i (step # rest)
       (stepResults, passed, failed) =
     await (executeStep env page step baseUrl screenshotDir) (\<lambda>result.
     let stepResults' = stepResults @ [result];
         passed' = (if success result then passed + 1 else passed);
         failed' = (if success result then failed else failed + 1)
     in
     await (if \<not> jsonOutput then console (ReportStep result i) else return ()) (\<lambda>u.
     if \<not> success result \<and> stopOnFailure then return (stepResults', passed', failed')
     else runTestFlow_loop env page baseUrl screenshotDir jsonOutput stopOnFailure (i + 1) rest
            (stepResults', passed', failed')))"
  for baseUrl screenshotDir jsonOutput stopOnFailure passed failed step

text \<open>The \<^verbatim>\<open>finally\<close> clause: \<^verbatim>\<open>page.close()\<close>, then \<^verbatim>\<open>browser.close()\<close>.\<close>

definition runTestFlow_release :: "'e env \<Rightarrow> Browser \<Rightarrow> Page \<Rightarrow> (unit, 'e) io" where
  "runTestFlow_release env browser page =
     await (do env (PageClose page)) (\<lambda>u. do env (BrowserClose browser))"

text \<open>
  From \<^verbatim>\<open>const startTime = Date.now()\<close> to \<^verbatim>\<open>const duration = Date.now() - startTime\<close>: the
  loop inside \<^verbatim>\<open>try\<close>, the release inside \<^verbatim>\<open>finally\<close>.
\<close>

definition runTestFlow_timed ::
  "'e env \<Rightarrow> settings \<Rightarrow> Browser \<Rightarrow> Page \<Rightarrow> (StepResult list \<times> nat \<times> nat \<times> int, 'e) io" where
  "runTestFlow_timed env cfg browser page w =
     (case cfg of (flow, baseUrl, screenshotDir, headless, stopOnFailure, jsonOutput) \<Rightarrow>
      let startTime = now env w in
      await (try_finally
               (runTestFlow_loop env page baseUrl screenshotDir jsonOutput stopOnFailure 0
                  (TestFlow.steps flow) ([], 0, 0))
               (runTestFlow_release env browser page))
        (\<lambda>(stepResults, passed, failed) w'.
           (Inr (stepResults, passed, failed, now env w' - startTime), w')) w)"
  for flow baseUrl screenshotDir headless stopOnFailure jsonOutput passed failed

text \<open>
  After the duration is known: the results object, \<^verbatim>\<open>recordTestRun\<close>, the summary or the
  JSON report, \<^verbatim>\<open>return results\<close>.
\<close>

definition runTestFlow_finish ::
  "'e env \<Rightarrow> settings \<Rightarrow> StepResult list \<times> nat \<times> nat \<times> int \<Rightarrow> (TestResults, 'e) io" where
  "runTestFlow_finish env cfg outcome =
     (case cfg of (flow, baseUrl, screenshotDir, headless, stopOnFailure, jsonOutput) \<Rightarrow>
      case outcome of (stepResults, passed, failed, duration) \<Rightarrow>
      let results = \<lparr>TestResults.name = TestFlow.name flow, TestResults.baseUrl = baseUrl,
                     TestResults.steps = stepResults, TestResults.passed = passed,
                     TestResults.failed = failed,
                     TestResults.total = length (TestFlow.steps flow),
                     TestResults.duration = duration, TestResults.screenshotDir = screenshotDir\<rparr>
      in
      await (\<lambda>w. do env (RecordTestRun
                \<lparr>flow_name = TestFlow.name flow, base_url = baseUrl,
                 TestRecord.passed = passed, TestRecord.failed = failed,
                 TestRecord.total = length (TestFlow.steps flow), duration_ms = duration,
                 created_at = Date_toISOString env (ext w)\<rparr>) w) (\<lambda>u.
      await (\<lambda>w. if jsonOutput
                  then console (ConsoleLogJsonReport results (Date_toISOString env (ext w))) w
                  else console (ReportSummary results) w) (\<lambda>u.
      return results)))"
  for flow baseUrl screenshotDir headless stopOnFailure jsonOutput passed failed duration

definition runTestFlow :: "'e env \<Rightarrow> RunTestOptions \<Rightarrow> (TestResults, 'e) io" where
  "runTestFlow env options =
     await (runTestFlow_prepare env options) (\<lambda>cfg.
     await (runTestFlow_acquire env (fst (snd (snd (snd cfg))))) (\<lambda>(browser, page).
     await (runTestFlow_timed env cfg browser page) (\<lambda>outcome.
     runTestFlow_finish env cfg outcome)))"


section \<open>Scripted environments for concrete runs\<close>

text \<open>
  The world outside is a clock in milliseconds. Launching the browser takes 1000 ms, a
  timer takes its delay, every other call is instantaneous. The page shows one element
  whose text is \<open>h1\<close>; the selector \<^verbatim>\<open>#missing\<close> never appears, every other selector is there.
  The screenshot directory exists and there are no flow files. The pages and the flows
  of the scripted runs hold ASCII text only.
\<close>

text \<open>
  \<^verbatim>\<open>String.prototype.toLowerCase\<close> on ASCII text: the letters \<^verbatim>\<open>A\<close> to \<^verbatim>\<open>Z\<close> become \<^verbatim>\<open>a\<close> to
  \<^verbatim>\<open>z\<close>, every other ASCII character stays.
\<close>

definition lowerAscii_char :: "char \<Rightarrow> char" where
  "lowerAscii_char c =
     (let n = (of_char c :: nat) in if 65 \<le> n \<and> n \<le> 90 then char_of (n + 32) else c)"

definition lowerAscii :: "string \<Rightarrow> string" where
  "lowerAscii s = map lowerAscii_char s"

text \<open>
  \<^verbatim>\<open>JSON.stringify\<close> for a step object whose keys were written in the order of the
  interface and whose strings need no escaping.
\<close>

fun decimal :: "nat \<Rightarrow> string" where
  "decimal n = (if n < 10 then [char_of (48 + n)]
                else decimal (n div 10) @ [char_of (48 + n mod 10)])"

definition json_number :: "int \<Rightarrow> string" where
  "json_number i = (if i < 0 then ''-'' @ decimal (nat (- i)) else decimal (nat i))"

definition json_string_field :: "string \<Rightarrow> string option \<Rightarrow> string list" where
  \<open>json_string_field key v =
     (case v of None \<Rightarrow> [] | Some x \<Rightarrow> [''"'' @ key @ ''":"'' @ x @ ''"''])\<close>

definition json_number_field :: "string \<Rightarrow> int option \<Rightarrow> string list" where
  \<open>json_number_field key v =
     (case v of None \<Rightarrow> [] | Some x \<Rightarrow> [''"'' @ key @ ''":'' @ json_number x])\<close>

fun join_commas :: "string list \<Rightarrow> string" where
  "join_commas [] = []"
| "join_commas [x] = x"
| "join_commas (x # y # ys) = x @ '','' @ join_commas (y # ys)"

definition stringifyStep :: "TestStep \<Rightarrow> string" where
  "stringifyStep s = ''{'' @ join_commas
     (json_string_field ''goto'' (goto s) @ json_string_field ''click'' (click s)
      @ json_string_field ''type'' (type s) @ json_string_field ''text'' (text s)
      @ json_string_field ''waitFor'' (waitFor s) @ json_number_field ''timeout'' (timeout s)
      @ json_string_field ''screenshot'' (screenshot s) @ json_string_field ''verify'' (verify s)
      @ json_string_field ''contains'' (contains s) @ json_number_field ''wait'' (wait s)
      @ json_string_field ''scroll'' (scroll s) @ json_string_field ''hover'' (hover s)
      @ json_string_field ''select'' (select s) @ json_string_field ''value'' (value s)
      @ json_string_field ''press'' (press s) @ json_string_field ''evaluate'' (evaluate s))
     @ ''}''"

definition scriptedEnv :: "string \<Rightarrow> int env" where
  "scriptedEnv h1 = \<lparr>
     puppeteer_launch = (\<lambda>h s u e. (Inr 1, e + 1000)),
     browser_newPage = (\<lambda>b e. (Inr 1, e)),
     page_eval_textContent = (\<lambda>p sel e. (Inr h1, e)),
     readFlowFile = (\<lambda>path e. (Inl (JsError ''SyntaxError'' ''Unexpected end of JSON input''), e)),
     perform = (\<lambda>ev e. case ev of
         PageWaitForSelector p sel v t \<Rightarrow>
           if sel = ''#missing''
           then (Inl (JsError ''TimeoutError'' ''Waiting for selector #missing failed''), e)
           else (Inr (), e)
       | SetTimeout ms \<Rightarrow> (Inr (), e + ms)
       | _ \<Rightarrow> (Inr (), e)),
     fs_existsSync = (\<lambda>p e. True),
     Date_now = (\<lambda>e. e),
     Date_toISOString = (\<lambda>e. ''2026-01-01T00:00:00.000Z''),
     Math_random = (\<lambda>e. (1 / 2, e)),
     JSON_stringify = stringifyStep,
     String_toLowerCase = lowerAscii\<rparr>"

text \<open>The same, with a database that cannot be written.\<close>

definition dbDownEnv :: "string \<Rightarrow> int env" where
  "dbDownEnv h1 = (scriptedEnv h1)\<lparr>perform := (\<lambda>ev e. case ev of
        RecordTestRun t \<Rightarrow> (Inl (JsError ''SqliteError'' ''unable to open database file''), e)
      | _ \<Rightarrow> perform (scriptedEnv h1) ev e)\<rparr>"

definition freshWorld :: "int world" where
  "freshWorld = \<lparr>browserInstance = None, trace = [], ext = 0\<rparr>"

definition emptyStep :: TestStep where
  "emptyStep = \<lparr>goto = None, click = None, type = None, text = None, waitFor = None,
     timeout = None, screenshot = None, verify = None, contains = None, wait = None,
     scroll = None, hover = None, select = None, value = None, press = None, evaluate = None\<rparr>"

definition loginFlow :: TestFlow where
  "loginFlow = \<lparr>TestFlow.name = ''Login'', TestFlow.baseUrl = Some ''https://ex.com'',
     TestFlow.steps =
       [emptyStep\<lparr>goto := Some ''/login''\<rparr>,
        emptyStep\<lparr>type := Some ''#email'', text := Some ''a@b.com''\<rparr>,
        emptyStep\<lparr>click := Some ''button[type=submit]''\<rparr>,
        emptyStep\<lparr>verify := Some ''h1'', contains := Some ''Dashboard''\<rparr>]\<rparr>"

text \<open>Five steps; the second waits for an element that never appears.\<close>

definition flakyFlow :: TestFlow where
  "flakyFlow = \<lparr>TestFlow.name = ''Flaky'', TestFlow.baseUrl = None,
     TestFlow.steps =
       [emptyStep\<lparr>goto := Some ''https://ex.com/''\<rparr>,
        emptyStep\<lparr>waitFor := Some ''#missing''\<rparr>,
        emptyStep\<lparr>wait := Some 5\<rparr>,
        emptyStep\<lparr>verify := Some ''h1'', contains := Some ''Goodbye''\<rparr>,
        emptyStep\<lparr>press := Some ''Enter''\<rparr>]\<rparr>"

definition optionsFor :: "TestFlow \<Rightarrow> bool \<Rightarrow> RunTestOptions" where
  "optionsFor fl stop = \<lparr>flowPath = None, flow = Some fl, RunTestOptions.baseUrl = None,
     RunTestOptions.screenshotDir = None, RunTestOptions.headless = None,
     stopOnFailure = Some stop, jsonOutput = None\<rparr>"

section \<open>What every operation leaves alone\<close>

text \<open>
  An operation \<open>keeps\<close> the cache when it leaves \<^verbatim>\<open>browserInstance\<close> as it is and only
  appends to the events.
\<close>

definition keeps :: "('a, 'e) io \<Rightarrow> bool" where
  "keeps m = (\<forall>w. browserInstance (snd (m w)) = browserInstance w \<and>
                   (\<exists>rest. trace (snd (m w)) = trace w @ rest))"


lemma keepsI:
  "(\<And>w. browserInstance (snd (m w)) = browserInstance w) \<Longrightarrow>
   (\<And>w. \<exists>rest. trace (snd (m w)) = trace w @ rest) \<Longrightarrow> keeps m"
  by (simp add: keeps_def)

lemma keeps_browser: "keeps m \<Longrightarrow> m w = (r, w') \<Longrightarrow> browserInstance w' = browserInstance w"
  by (auto simp: keeps_def dest: spec[where x=w])

lemma keeps_trace: "keeps m \<Longrightarrow> m w = (r, w') \<Longrightarrow> \<exists>rest. trace w' = trace w @ rest"
  by (auto simp: keeps_def dest: spec[where x=w])

lemma keeps_return [intro!, simp]: "keeps (return x)"
  by (simp add: keeps_def return_def)

lemma keeps_throw [intro!, simp]: "keeps (throw e)"
  by (simp add: keeps_def throw_def)

lemma keeps_call [intro!, simp]: "keeps (call ev op)"
  by (simp add: keeps_def call_def split: prod.splits)

lemma keeps_do [intro!, simp]: "keeps (do env ev)"
  by (simp add: do_def)

lemma keeps_console [intro!, simp]: "keeps (console ev)"
  by (simp add: keeps_def console_def)

lemma keeps_await [intro!]:
  assumes "keeps m" and "\<And>x. keeps (k x)"
  shows "keeps (await m k)"
proof (rule keepsI)
  fix w
  obtain r w1 where m: "m w = (r, w1)" by (cases "m w")
  from keeps_browser[OF assms(1) m] keeps_trace[OF assms(1) m]
  obtain rest1 where b1: "browserInstance w1 = browserInstance w"
    and t1: "trace w1 = trace w @ rest1" by blast
  show "browserInstance (snd (await m k w)) = browserInstance w"
  proof (cases r)
    case (Inl e) with m b1 show ?thesis by (simp add: await_def)
  next
    case (Inr x)
    obtain r2 w2 where k: "k x w1 = (r2, w2)" by (cases "k x w1")
    from keeps_browser[OF assms(2) k] b1 m Inr k show ?thesis by (simp add: await_def)
  qed
  show "\<exists>rest. trace (snd (await m k w)) = trace w @ rest"
  proof (cases r)
    case (Inl e) with m t1 show ?thesis by (simp add: await_def)
  next
    case (Inr x)
    obtain r2 w2 where k: "k x w1 = (r2, w2)" by (cases "k x w1")
    from keeps_trace[OF assms(2) k] t1 m Inr k show ?thesis by (auto simp add: await_def)
  qed
qed

lemma keeps_if [intro!]: "(c \<Longrightarrow> keeps a) \<Longrightarrow> (\<not> c \<Longrightarrow> keeps b) \<Longrightarrow> keeps (if c then a else b)"
  by simp

lemma keeps_try_catch [intro!]:
  assumes "keeps m" and "\<And>e. keeps (h e)"
  shows "keeps (try_catch m h)"
proof (rule keepsI)
  fix w
  obtain r w1 where m: "m w = (r, w1)" by (cases "m w")
  from keeps_browser[OF assms(1) m] keeps_trace[OF assms(1) m]
  obtain rest1 where b1: "browserInstance w1 = browserInstance w"
    and t1: "trace w1 = trace w @ rest1" by blast
  show "browserInstance (snd (try_catch m h w)) = browserInstance w"
  proof (cases r)
    case (Inr x) with m b1 show ?thesis by (simp add: try_catch_def)
  next
    case (Inl e)
    obtain r2 w2 where k: "h e w1 = (r2, w2)" by (cases "h e w1")
    from keeps_browser[OF assms(2) k] b1 m Inl k show ?thesis by (simp add: try_catch_def)
  qed
  show "\<exists>rest. trace (snd (try_catch m h w)) = trace w @ rest"
  proof (cases r)
    case (Inr x) with m t1 show ?thesis by (simp add: try_catch_def)
  next
    case (Inl e)
    obtain r2 w2 where k: "h e w1 = (r2, w2)" by (cases "h e w1")
    from keeps_trace[OF assms(2) k] t1 m Inl k show ?thesis by (auto simp add: try_catch_def)
  qed
qed

lemma keeps_sleep [intro!, simp]: "keeps (sleep env ms)"
  by (simp add: sleep_def)

lemma keeps_local:
  assumes "\<And>w. \<exists>m' x. keeps m' \<and> m w = m' (w\<lparr>ext := x\<rparr>)"
  shows "keeps m"
proof (rule keepsI)
  fix w
  from assms obtain m' x where k: "keeps m'" and eq: "m w = m' (w\<lparr>ext := x\<rparr>)" by blast
  obtain r w1 where m: "m' (w\<lparr>ext := x\<rparr>) = (r, w1)" by (cases "m' (w\<lparr>ext := x\<rparr>)")
  from keeps_browser[OF k m] show "browserInstance (snd (m w)) = browserInstance w"
    using m eq by simp
  from keeps_trace[OF k m] show "\<exists>rest. trace (snd (m w)) = trace w @ rest"
    using m eq by simp
qed

lemma keeps_randomDelay [intro!, simp]: "keeps (randomDelay (env :: 'e env) lo hi)"
proof (rule keeps_local)
  fix w :: "'e world"
  obtain r x where mr: "Math_random env (ext w) = (r, x)" by (cases "Math_random env (ext w)")
  have "keeps (sleep env (\<lfloor>r * of_int (hi - lo + 1)\<rfloor> + lo))" by simp
  moreover have "randomDelay env lo hi w =
      sleep env (\<lfloor>r * of_int (hi - lo + 1)\<rfloor> + lo) (w\<lparr>ext := x\<rparr>)"
    by (simp add: randomDelay_def mr)
  ultimately show "\<exists>m' x. keeps m' \<and> randomDelay env lo hi w = m' (w\<lparr>ext := x\<rparr>)" by blast
qed

lemma keeps_humanType_chars [intro!, simp]: "keeps (humanType_chars (env :: 'e env) page selector cs)"
proof (induction cs)
  case Nil
  have "humanType_chars env page selector [] = return ()"
    by (rule ext) (simp add: return_def)
  then show ?case by simp
next
  case (Cons c cs)
  show ?case
  proof (rule keeps_local)
    fix w :: "'e world"
    obtain r x where mr: "Math_random env (ext w) = (r, x)" by (cases "Math_random env (ext w)")
    have "keeps (await (do env (PageType page selector c (r * 100 + 50)))
                       (\<lambda>u. humanType_chars env page selector cs))"
      using Cons by (intro keeps_await keeps_do)
    moreover have "humanType_chars env page selector (c # cs) w =
       await (do env (PageType page selector c (r * 100 + 50)))
                       (\<lambda>u. humanType_chars env page selector cs) (w\<lparr>ext := x\<rparr>)"
      by (simp add: mr)
    ultimately show "\<exists>m' x. keeps m' \<and> humanType_chars env page selector (c # cs) w = m' (w\<lparr>ext := x\<rparr>)"
      by blast
  qed
qed

lemma keeps_humanType [intro!, simp]: "keeps (humanType env page selector txt)"
  unfolding humanType_def by (intro keeps_await keeps_do keeps_humanType_chars)

lemma keeps_scrollToElement [intro!, simp]: "keeps (scrollToElement env page selector)"
  unfolding scrollToElement_def by (intro keeps_await keeps_do keeps_sleep)

lemma keeps_takeScreenshot [intro!, simp]: "keeps (takeScreenshot (env :: 'e env) page nm dir)"
proof (rule keeps_local)
  fix w :: "'e world"
  define fp where "fp = dir @ ''/'' @ nm @ ''-'' @ replace_colon_dot (Date_toISOString env (ext w)) @ ''.png''"
  have "keeps (await (do env (PageScreenshot page fp)) (\<lambda>u. return fp))"
    by (intro keeps_await keeps_do keeps_return)
  moreover have "takeScreenshot env page nm dir w =
      await (do env (PageScreenshot page fp)) (\<lambda>u. return fp) (w\<lparr>ext := ext w\<rparr>)"
    by (simp add: takeScreenshot_def fp_def Let_def)
  ultimately show "\<exists>m' x. keeps m' \<and> takeScreenshot env page nm dir w = m' (w\<lparr>ext := x\<rparr>)"
    by blast
qed

lemma keeps_executeStep_try [intro!, simp]:
  "keeps (executeStep_try env page stp base dir result)"
  unfolding executeStep_try_def Let_def
  by (intro keeps_if keeps_await keeps_do keeps_return keeps_call keeps_randomDelay
        keeps_humanType keeps_scrollToElement keeps_takeScreenshot keeps_sleep)


lemma executeStep_returns:
  "\<exists>r w'. executeStep env page stp base dir w = (Inr r, w')"
  unfolding executeStep_def Let_def await_def try_catch_def return_def
  by (auto split: prod.splits sum.splits)

lemma keeps_executeStep [intro!, simp]: "keeps (executeStep (env :: 'e env) page stp base dir)"
proof (rule keeps_local)
  fix w :: "'e world"
  define result where "result = newResult stp"
  define m' where "m' = await (try_catch (executeStep_try env page stp base dir result)
                  (\<lambda>error. return (result\<lparr>success := False,
                                            error := Some (String_of_error error)\<rparr>)))
           (\<lambda>result w'. (Inr (result\<lparr>StepResult.duration := now env w' - now env w\<rparr>), w'))"
  have "\<And>r. keeps (\<lambda>w'. (Inr (r\<lparr>StepResult.duration := now env w' - now env w\<rparr>) :: js_error + StepResult, w'))"
    by (simp add: keeps_def)
  then have "keeps m'" unfolding m'_def
    by (intro keeps_await keeps_try_catch keeps_executeStep_try keeps_return)
  moreover have "executeStep env page stp base dir w = m' (w\<lparr>ext := ext w\<rparr>)"
    by (simp add: executeStep_def m'_def result_def Let_def)
  ultimately show "\<exists>m' x. keeps m' \<and> executeStep env page stp base dir w = m' (w\<lparr>ext := x\<rparr>)"
    by blast
qed

text \<open>The first driver call of an action that waits, and the timeout it carries.\<close>

lemma executeStep_trace:
  "trace (snd (executeStep env page stp base dir w)) =
   trace (snd (executeStep_try env page stp base dir (newResult stp) w))"
  unfolding executeStep_def Let_def await_def try_catch_def return_def
  by (auto split: prod.splits sum.splits)

lemma await_do_trace:
  assumes "\<And>x. keeps (k x)"
  shows "\<exists>rest. trace (snd (await (do env ev) k w)) = trace w @ ev # rest"
proof -
  obtain r w1 where d: "do env ev w = (r, w1)" by (cases "do env ev w")
  then have t1: "trace w1 = trace w @ [ev]"
    by (auto simp: do_def call_def split: prod.splits)
  show ?thesis
  proof (cases r)
    case (Inl e)
    with d t1 show ?thesis by (simp add: await_def)
  next
    case (Inr x)
    obtain r2 w2 where k: "k x w1 = (r2, w2)" by (cases "k x w1")
    from keeps_trace[OF assms k] obtain rest where "trace w2 = trace w1 @ rest" by blast
    with d t1 Inr k show ?thesis by (simp add: await_def)
  qed
qed

lemma executeStep_try_first:
  assumes "default_timeout (action_of stp) = Some d"
  shows "\<exists>ev k. executeStep_try env page stp base dir result = await (do env ev) k \<and>
           (\<forall>x. keeps (k x)) \<and> timeout_of ev = Some (or_number (timeout stp) d)"
proof -
  from assms consider
      (nav) "goto stp \<noteq> None" "d = 30000"
    | (click) "goto stp = None" "click stp \<noteq> None" "d = 10000"
    | (type) "goto stp = None" "click stp = None" "type stp \<noteq> None" "text stp \<noteq> None" "d = 10000"
    | (waitFor) "goto stp = None" "click stp = None" "\<not> (type stp \<noteq> None \<and> text stp \<noteq> None)"
        "waitFor stp \<noteq> None" "d = 30000"
    | (verify) "goto stp = None" "click stp = None" "\<not> (type stp \<noteq> None \<and> text stp \<noteq> None)"
        "waitFor stp = None" "screenshot stp = None" "verify stp \<noteq> None" "contains stp \<noteq> None"
        "d = 10000"
    | (hover) "goto stp = None" "click stp = None" "\<not> (type stp \<noteq> None \<and> text stp \<noteq> None)"
        "waitFor stp = None" "screenshot stp = None" "\<not> (verify stp \<noteq> None \<and> contains stp \<noteq> None)"
        "wait stp = None" "scroll stp = None" "hover stp \<noteq> None" "d = 10000"
    | (select) "goto stp = None" "click stp = None" "\<not> (type stp \<noteq> None \<and> text stp \<noteq> None)"
        "waitFor stp = None" "screenshot stp = None" "\<not> (verify stp \<noteq> None \<and> contains stp \<noteq> None)"
        "wait stp = None" "scroll stp = None" "hover stp = None" "select stp \<noteq> None"
        "value stp \<noteq> None" "d = 10000"
    by (auto simp: action_of_def default_timeout_def split: if_splits)
  then show ?thesis
  proof cases
    case nav
    have "executeStep_try env page stp base dir result =
        await (do env (PageGoto page
                 (if startsWith (the (goto stp)) ''http'' then the (goto stp)
                  else base @ the (goto stp)) (or_number (timeout stp) 30000)))
          (\<lambda>u. return (result\<lparr>success := True\<rparr>))" (is "_ = await (do env ?ev) ?k")
      using nav by (simp add: executeStep_try_def Let_def)
    moreover have "\<forall>x. keeps (?k x)" by simp
    moreover have "timeout_of ?ev = Some (or_number (timeout stp) d)"
      using nav by (simp add: timeout_of_def)
    ultimately show ?thesis by blast
  next
    case click
    have "executeStep_try env page stp base dir result =
        await (do env (PageWaitForSelector page (resolveSelector (the (click stp))) True
                 (Some (or_number (timeout stp) 10000))))
          (\<lambda>u. await (randomDelay env 100 300) (\<lambda>u.
                await (do env (PageClick page (resolveSelector (the (click stp))))) (\<lambda>u.
                return (result\<lparr>success := True\<rparr>))))" (is "_ = await (do env ?ev) ?k")
      using click by (simp add: executeStep_try_def Let_def)
    moreover have "\<forall>x. keeps (?k x)"
      by (intro allI keeps_await keeps_randomDelay keeps_do keeps_return)
    moreover have "timeout_of ?ev = Some (or_number (timeout stp) d)"
      using click by (simp add: timeout_of_def)
    ultimately show ?thesis by blast
  next
    case type
    have "executeStep_try env page stp base dir result =
        await (do env (PageWaitForSelector page (resolveSelector (the (type stp))) True
                 (Some (or_number (timeout stp) 10000))))
          (\<lambda>u. await (do env (PageClick page (resolveSelector (the (type stp))))) (\<lambda>u.
                await (do env (PageClearValue page (resolveSelector (the (type stp))))) (\<lambda>u.
                await (humanType env page (resolveSelector (the (type stp))) (the (text stp))) (\<lambda>u.
                return (result\<lparr>success := True\<rparr>)))))" (is "_ = await (do env ?ev) ?k")
      using type by (simp add: executeStep_try_def Let_def)
    moreover have "\<forall>x. keeps (?k x)"
      by (intro allI keeps_await keeps_humanType keeps_do keeps_return)
    moreover have "timeout_of ?ev = Some (or_number (timeout stp) d)"
      using type by (simp add: timeout_of_def)
    ultimately show ?thesis by blast
  next
    case waitFor
    have "executeStep_try env page stp base dir result =
        await (do env (PageWaitForSelector page (resolveSelector (the (waitFor stp))) True
                 (Some (or_number (timeout stp) 30000))))
          (\<lambda>u. return (result\<lparr>success := True\<rparr>))" (is "_ = await (do env ?ev) ?k")
      using waitFor by (auto simp add: executeStep_try_def Let_def)
    moreover have "\<forall>x. keeps (?k x)" by simp
    moreover have "timeout_of ?ev = Some (or_number (timeout stp) d)"
      using waitFor by (simp add: timeout_of_def)
    ultimately show ?thesis by blast
  next
    case verify
    have \<open>executeStep_try env page stp base dir result =
        await (do env (PageWaitForSelector page (resolveSelector (the (verify stp))) False
                 (Some (or_number (timeout stp) 10000))))
          (\<lambda>u. await (call (PageEvalTextContent page (resolveSelector (the (verify stp))))
                 (page_eval_textContent env page (resolveSelector (the (verify stp))))) (\<lambda>txt.
        if includes_str (String_toLowerCase env txt)
             (String_toLowerCase env (the (contains stp))) then
          return (result\<lparr>success := True\<rparr>)
        else
          return (result\<lparr>success := False,
            error := Some (''Expected "'' @ the (contains stp) @ ''" but found "''
                           @ slice0 100 txt @ ''"'')\<rparr>)))\<close> (is "_ = await (do env ?ev) ?k")
      using verify by (auto simp add: executeStep_try_def Let_def)
    moreover have "\<forall>x. keeps (?k x)"
      by (intro allI keeps_await keeps_call keeps_if keeps_return)
    moreover have "timeout_of ?ev = Some (or_number (timeout stp) d)"
      using verify by (simp add: timeout_of_def)
    ultimately show ?thesis by blast
  next
    case hover
    have "executeStep_try env page stp base dir result =
        await (do env (PageWaitForSelector page (resolveSelector (the (hover stp))) True
                 (Some (or_number (timeout stp) 10000))))
          (\<lambda>u. await (do env (PageHover page (resolveSelector (the (hover stp))))) (\<lambda>u.
                return (result\<lparr>success := True\<rparr>)))" (is "_ = await (do env ?ev) ?k")
      using hover by (auto simp add: executeStep_try_def Let_def)
    moreover have "\<forall>x. keeps (?k x)"
      by (intro allI keeps_await keeps_do keeps_return)
    moreover have "timeout_of ?ev = Some (or_number (timeout stp) d)"
      using hover by (simp add: timeout_of_def)
    ultimately show ?thesis by blast
  next
    case select
    have "executeStep_try env page stp base dir result =
        await (do env (PageWaitForSelector page (resolveSelector (the (select stp))) False
                 (Some (or_number (timeout stp) 10000))))
          (\<lambda>u. await (do env (PageSelect page (resolveSelector (the (select stp))) (the (value stp)))) (\<lambda>u.
                return (result\<lparr>success := True\<rparr>)))" (is "_ = await (do env ?ev) ?k")
      using select by (auto simp add: executeStep_try_def Let_def)
    moreover have "\<forall>x. keeps (?k x)"
      by (intro allI keeps_await keeps_do keeps_return)
    moreover have "timeout_of ?ev = Some (or_number (timeout stp) d)"
      using select by (simp add: timeout_of_def)
    ultimately show ?thesis by blast
  qed
qed

section \<open>The loop over the steps\<close>

lemma await_Inr:
  "await m k w = (Inr y, w') \<Longrightarrow> \<exists>x w1. m w = (Inr x, w1) \<and> k x w1 = (Inr y, w')"
  by (auto simp: await_def split: prod.splits sum.splits)

lemma return_Inr: "return x w = (Inr y, w') \<Longrightarrow> y = x \<and> w' = w"
  by (simp add: return_def)

lemma executeStep_try_step:
  "executeStep_try env page stp base dir result w = (Inr r, w') \<Longrightarrow> step r = step result"
  unfolding executeStep_try_def Let_def
  by (auto split: if_splits dest!: await_Inr return_Inr)

lemma executeStep_step:
  "executeStep env page stp base dir w = (Inr r, w') \<Longrightarrow> step r = stp"
  unfolding executeStep_def Let_def
  by (auto simp: try_catch_def newResult_def split: prod.splits sum.splits
           dest!: await_Inr return_Inr executeStep_try_step)

lemma report_returns:
  "\<exists>w1. (if \<not> j then console ev else return ()) w = (Inr (), w1)"
  by (simp add: console_def return_def)

lemma loop_Cons:
  assumes "executeStep env page stp base dir w = (Inr r, w1)"
    and "(if \<not> j then console (ReportStep r i) else return ()) w1 = (Inr (), w2)"
  shows "runTestFlow_loop env page base dir j s i (stp # rest) (rs, p, f) w =
          (if \<not> success r \<and> s
           then (Inr (rs @ [r], (if success r then p + 1 else p),
                      (if success r then f else f + 1)), w2)
           else runTestFlow_loop env page base dir j s (i + 1) rest
                  (rs @ [r], (if success r then p + 1 else p),
                   (if success r then f else f + 1)) w2)"
  using assms by (simp add: await_def Let_def return_def)

lemma loop_returns:
  "\<exists>acc' w'. runTestFlow_loop env page base dir j s i stps acc w = (Inr acc', w')"
proof (induction stps arbitrary: i acc w)
  case Nil
  obtain rs p f where "acc = (rs, p, f)" by (cases acc)
  then show ?case by (simp add: return_def)
next
  case (Cons stp rest)
  obtain rs p f where acc: "acc = (rs, p, f)" by (cases acc)
  obtain r w1 where r: "executeStep env page stp base dir w = (Inr r, w1)"
    using executeStep_returns by blast
  obtain w2 where w2: "(if \<not> j then console (ReportStep r i) else return ()) w1 = (Inr (), w2)"
    using report_returns by blast
  show ?case
    unfolding acc loop_Cons [OF r w2] using Cons.IH by auto
qed

lemma loop_result:
  assumes "runTestFlow_loop env page base dir j s i stps (rs, p, f) w = (Inr (rs', p', f'), w')"
  shows "\<exists>new. rs' = rs @ new \<and> map step new = take (length new) stps \<and>
           length new \<le> length stps \<and>
           p' = p + length (filter success new) \<and>
           f' = f + length (filter (\<lambda>r. \<not> success r) new) \<and>
           (\<not> s \<longrightarrow> length new = length stps) \<and>
           (s \<longrightarrow> (\<forall>k. Suc k < length new \<longrightarrow> success (new ! k)) \<and>
                  (length new < length stps \<longrightarrow> new \<noteq> [] \<and> \<not> success (last new)))"
  using assms
proof (induction stps arbitrary: i rs p f w)
  case Nil
  then show ?case by (simp add: return_def)
next
  case (Cons stp rest)
  obtain r w1 where r: "executeStep env page stp base dir w = (Inr r, w1)"
    using executeStep_returns by blast
  obtain w2 where w2: "(if \<not> j then console (ReportStep r i) else return ()) w1 = (Inr (), w2)"
    using report_returns by blast
  have st: "step r = stp" using r by (rule executeStep_step)
  show ?case
  proof (cases "\<not> success r \<and> s")
    case True
    with Cons.prems have "rs' = rs @ [r]" "p' = p" "f' = f + 1"
      by (simp_all add: loop_Cons [OF r w2] del: runTestFlow_loop.simps)
    with True st show ?thesis by (intro exI [of _ "[r]"]) simp
  next
    case False
    with Cons.prems have "runTestFlow_loop env page base dir j s (i + 1) rest
        (rs @ [r], (if success r then p + 1 else p), (if success r then f else f + 1)) w2
        = (Inr (rs', p', f'), w')"
      by (simp add: loop_Cons [OF r w2] del: runTestFlow_loop.simps)
    from Cons.IH [OF this] obtain new where new:
      "rs' = (rs @ [r]) @ new" "map step new = take (length new) rest"
      "length new \<le> length rest"
      "p' = (if success r then p + 1 else p) + length (filter success new)"
      "f' = (if success r then f else f + 1) + length (filter (\<lambda>r. \<not> success r) new)"
      "\<not> s \<longrightarrow> length new = length rest"
      "s \<longrightarrow> (\<forall>k. Suc k < length new \<longrightarrow> success (new ! k)) \<and>
                  (length new < length rest \<longrightarrow> new \<noteq> [] \<and> \<not> success (last new))"
      by blast
    have all: "s \<longrightarrow> (\<forall>k. Suc k < length (r # new) \<longrightarrow> success ((r # new) ! k))"
    proof (intro impI allI)
      fix k assume s and k: "Suc k < length (r # new)"
      with False have "success r" by simp
      with new(7) \<open>s\<close> k show "success ((r # new) ! k)" by (cases k) auto
    qed
    show ?thesis
      using new st all by (intro exI [of _ "r # new"]) auto
  qed
qed

section \<open>The phases of a run\<close>

lemma keeps_loop [intro!, simp]:
  "keeps (runTestFlow_loop env page base dir j s i stps acc)"
proof (induction stps arbitrary: i acc)
  case Nil
  obtain rs p f where "acc = (rs, p, f)" by (cases acc)
  then show ?case by simp
next
  case (Cons stp rest)
  obtain rs p f where acc: "acc = (rs, p, f)" by (cases acc)
  show ?case
    unfolding acc runTestFlow_loop.simps Let_def
    by (intro keeps_await keeps_executeStep keeps_if keeps_console keeps_return Cons.IH)
qed

lemma keeps_release [intro!, simp]: "keeps (runTestFlow_release env browser page)"
  unfolding runTestFlow_release_def by (intro keeps_await keeps_do)

lemma release_Inr:
  assumes "runTestFlow_release env browser page w = (Inr u, w')"
  shows "\<exists>x. w' = w\<lparr>trace := trace w @ [PageClose page, BrowserClose browser], ext := x\<rparr>"
  using assms unfolding runTestFlow_release_def
  by (auto simp: await_def do_def call_def split: prod.splits sum.splits)

lemma launchBrowser_Inr:
  assumes "launchBrowser env opts w = (Inr b, w1)"
  shows "browserInstance w1 = Some b \<and> (\<exists>rest. trace w1 = trace w @ rest)"
  using assms unfolding launchBrowser_def Let_def
  by (auto simp: await_def call_def split: option.splits prod.splits sum.splits)

text \<open>\<^verbatim>\<open>closeBrowser\<close> is what empties the cache.\<close>

lemma closeBrowser_Inr:
  assumes "closeBrowser env w = (Inr u, w')"
  shows "browserInstance w' = None"
  using assms unfolding closeBrowser_def
  by (auto simp: await_def do_def call_def split: option.splits prod.splits sum.splits)

lemma keeps_newPage [intro!, simp]: "keeps (newPage env browser)"
  unfolding newPage_def by (intro keeps_await keeps_call keeps_do keeps_return)

lemma acquire_Inr:
  assumes "runTestFlow_acquire env h w = (Inr (browser, page), w2)"
  shows "browserInstance w2 = Some browser \<and> (\<exists>rest. trace w2 = trace w @ rest)"
proof -
  from assms obtain w1 where l: "launchBrowser env
      \<lparr>BrowserOptions.headless = Some h, slowMo = None, userDataDir = None\<rparr> w = (Inr browser, w1)"
    and n: "newPage env browser w1 = (Inr page, w2)"
    unfolding runTestFlow_acquire_def
    by (auto dest!: await_Inr return_Inr)
  from launchBrowser_Inr [OF l] keeps_browser [OF keeps_newPage n] keeps_trace [OF keeps_newPage n]
  show ?thesis by auto
qed

lemma timed_Inr:
  assumes "runTestFlow_timed env (fl, base, dir, h, s, j) browser page w2 = (Inr (rs, p, f, d), w5)"
  shows "\<exists>w3. runTestFlow_loop env page base dir j s 0 (TestFlow.steps fl) ([], 0, 0) w2
                 = (Inr (rs, p, f), w3) \<and>
              runTestFlow_release env browser page w3 = (Inr (), w5) \<and>
              d = now env w5 - now env w2"
  using assms unfolding runTestFlow_timed_def Let_def
  by (auto simp: await_def try_finally_def split: prod.splits sum.splits)

lemma finish_Inr:
  assumes "runTestFlow_finish env (fl, base, dir, h, s, j) (rs, p, f, d) w5 = (Inr res, w')"
  shows "res = \<lparr>TestResults.name = TestFlow.name fl, TestResults.baseUrl = base,
                 TestResults.steps = rs, TestResults.passed = p, TestResults.failed = f,
                 TestResults.total = length (TestFlow.steps fl),
                 TestResults.duration = d, TestResults.screenshotDir = dir\<rparr> \<and>
         browserInstance w' = browserInstance w5 \<and>
         (\<exists>rest. trace w' = trace w5 @ rest)"
  using assms unfolding runTestFlow_finish_def Let_def
  by (auto simp: await_def do_def call_def console_def return_def
           split: prod.splits sum.splits if_splits)

lemma runTestFlow_Inr:
  assumes "runTestFlow env options w = (Inr res, w')"
  obtains fl base dir h s j w0 browser page w2 rs p f w3 w5 where
    "runTestFlow_prepare env options w = (Inr (fl, base, dir, h, s, j), w0)"
    "runTestFlow_acquire env h w0 = (Inr (browser, page), w2)"
    "runTestFlow_loop env page base dir j s 0 (TestFlow.steps fl) ([], 0, 0) w2
       = (Inr (rs, p, f), w3)"
    "runTestFlow_release env browser page w3 = (Inr (), w5)"
    "res = \<lparr>TestResults.name = TestFlow.name fl, TestResults.baseUrl = base,
                 TestResults.steps = rs, TestResults.passed = p, TestResults.failed = f,
                 TestResults.total = length (TestFlow.steps fl),
                 TestResults.duration = now env w5 - now env w2,
                 TestResults.screenshotDir = dir\<rparr>"
    "browserInstance w' = browserInstance w5"
    "\<exists>rest. trace w' = trace w5 @ rest"
proof -
  from assms obtain cfg w0 bp w2 out w5 where
    a: "runTestFlow_prepare env options w = (Inr cfg, w0)"
    and b: "runTestFlow_acquire env (fst (snd (snd (snd cfg)))) w0 = (Inr bp, w2)"
    and c: "runTestFlow_timed env cfg (fst bp) (snd bp) w2 = (Inr out, w5)"
    and d: "runTestFlow_finish env cfg out w5 = (Inr res, w')"
    unfolding runTestFlow_def
    by (auto dest!: await_Inr simp: case_prod_beta)
  obtain fl base dir h s j where cfg: "cfg = (fl, base, dir, h, s, j)" by (cases cfg)
  obtain browser page where bp: "bp = (browser, page)" by (cases bp)
  obtain rs p f dur where out: "out = (rs, p, f, dur)" by (cases out)
  from timed_Inr [OF c [unfolded cfg out bp fst_conv snd_conv]]
  obtain w3 where "runTestFlow_loop env page base dir j s 0 (TestFlow.steps fl) ([], 0, 0) w2
                 = (Inr (rs, p, f), w3)"
    "runTestFlow_release env browser page w3 = (Inr (), w5)"
    "dur = now env w5 - now env w2" by blast
  moreover note finish_Inr [OF d [unfolded cfg out]] a [unfolded cfg]
    b [unfolded cfg bp fst_conv snd_conv]
  ultimately show thesis using that by blast
qed

lemma keeps_loadTestFlow [intro!, simp]: "keeps (loadTestFlow env filepath)"
  by (simp add: keeps_def loadTestFlow_def throw_def call_def split: prod.splits)

lemma keeps_prepare [intro!, simp]: "keeps (runTestFlow_prepare env options)"
proof -
  have "\<And>dir. keeps (\<lambda>w. if \<not> fs_existsSync env dir (ext w)
                  then do env (FsMkdirSync dir) w else return () w)"
    by (simp add: keeps_def do_def call_def return_def split: prod.splits)
  then show ?thesis
    unfolding runTestFlow_prepare_def Let_def
    by (intro keeps_await keeps_if keeps_return keeps_throw keeps_loadTestFlow keeps_console)
qed

lemma prepare_Inr:
  assumes "runTestFlow_prepare env options w = (Inr (fl, base, dir, h, s, j), w0)"
  shows "base = effectiveBaseUrl (RunTestOptions.baseUrl options) fl \<and>
         s = (case RunTestOptions.stopOnFailure options of None \<Rightarrow> False | Some b \<Rightarrow> b)"
  using assms unfolding runTestFlow_prepare_def Let_def
  by (auto dest!: await_Inr return_Inr)

text \<open>The definitions that a concrete run unfolds.\<close>

lemmas run_defs = runTestFlow_def runTestFlow_prepare_def runTestFlow_acquire_def
  runTestFlow_timed_def runTestFlow_finish_def runTestFlow_release_def
  executeStep_def executeStep_try_def newResult_def
  launchBrowser_def newPage_def sleep_def randomDelay_def humanType_def takeScreenshot_def
  scrollToElement_def
  await_def try_catch_def try_finally_def return_def throw_def call_def do_def console_def now_def
  effectiveBaseUrl_def truthy_def or_number_def resolveSelector_def startsWith_def
  lowerAscii_def lowerAscii_char_def slice0_def String_of_error_def
  scriptedEnv_def freshWorld_def emptyStep_def optionsFor_def Let_def

section \<open>executeStep never throws\<close>

text \<open>
  Claim C2. For every step, page, base URL and screenshot directory, \<^verbatim>\<open>executeStep\<close>
  returns a result and does not throw; and whenever the \<^verbatim>\<open>try\<close> block throws \<open>e\<close>, the
  result returned is the initial result with \<^verbatim>\<open>success = false\<close> and
  \<^verbatim>\<open>error = String(e)\<close>, its duration being the time the block took.
\<close>

theorem executeStep_never_throws:
  fixes env :: "'e env" and step :: TestStep and baseUrl screenshotDir :: string
  shows "(\<exists>r w'. executeStep env page step baseUrl screenshotDir w = (Inr r, w')) \<and>
         (\<forall>e w1. executeStep_try env page step baseUrl screenshotDir (newResult step) w = (Inl e, w1) \<longrightarrow>
            executeStep env page step baseUrl screenshotDir w =
              (Inr ((newResult step)\<lparr>success := False, error := Some (String_of_error e),
                      StepResult.duration := now env w1 - now env w\<rparr>), w1))"
  unfolding executeStep_def Let_def await_def try_catch_def return_def
  by (auto split: prod.splits sum.splits)

theorem executeStep_never_throws_witness:
  "executeStep_try (scriptedEnv ''Dashboard'') 1 (emptyStep\<lparr>waitFor := Some ''#missing''\<rparr>)
       ''https://ex.com'' ''./screenshots'' (newResult (emptyStep\<lparr>waitFor := Some ''#missing''\<rparr>))
       freshWorld
     = (Inl (JsError ''TimeoutError'' ''Waiting for selector #missing failed''),
        \<lparr>browserInstance = None,
         trace = [PageWaitForSelector 1 ''#missing'' True (Some 30000)], ext = 0\<rparr>)
   \<and> executeStep (scriptedEnv ''Dashboard'') 1 (emptyStep\<lparr>waitFor := Some ''#missing''\<rparr>)
       ''https://ex.com'' ''./screenshots'' freshWorld
     = (Inr \<lparr>step = emptyStep\<lparr>waitFor := Some ''#missing''\<rparr>, success = False,
             StepResult.duration = 0,
             error = Some ''TimeoutError: Waiting for selector #missing failed'',
             screenshotPath = None\<rparr>,
        \<lparr>browserInstance = None,
         trace = [PageWaitForSelector 1 ''#missing'' True (Some 30000)], ext = 0\<rparr>)"
proof -
  have thrown: "executeStep_try (scriptedEnv ''Dashboard'') 1 (emptyStep\<lparr>waitFor := Some ''#missing''\<rparr>)
       ''https://ex.com'' ''./screenshots'' (newResult (emptyStep\<lparr>waitFor := Some ''#missing''\<rparr>))
       freshWorld
     = (Inl (JsError ''TimeoutError'' ''Waiting for selector #missing failed''),
        \<lparr>browserInstance = None,
         trace = [PageWaitForSelector 1 ''#missing'' True (Some 30000)], ext = 0\<rparr>)"
    by code_simp
  from executeStep_never_throws [THEN conjunct2, rule_format, OF thrown] thrown
  show ?thesis
    by (simp add: newResult_def String_of_error_def now_def scriptedEnv_def freshWorld_def)
qed

section \<open>Steps that match no branch\<close>

text \<open>
  Claim C3 says that a step with an action tag whose companion field is absent is
  classified as failed and that no later tag of the same object runs instead. The step
  \<^verbatim>\<open>{ type: "#x", wait: 5 }\<close> has \<^verbatim>\<open>type\<close> without \<^verbatim>\<open>text\<close>; the chain skips the
  \<^verbatim>\<open>type\<close> branch, runs the \<^verbatim>\<open>wait\<close> branch and the step passes.
\<close>

theorem missing_companion_counterexample:
  "type (emptyStep\<lparr>type := Some ''#x'', wait := Some 5\<rparr>) \<noteq> None \<and>
   text (emptyStep\<lparr>type := Some ''#x'', wait := Some 5\<rparr>) = None \<and>
   executeStep (scriptedEnv ''Dashboard'') 1 (emptyStep\<lparr>type := Some ''#x'', wait := Some 5\<rparr>)
       ''https://ex.com'' ''./screenshots'' freshWorld
     = (Inr \<lparr>step = emptyStep\<lparr>type := Some ''#x'', wait := Some 5\<rparr>, success = True,
             StepResult.duration = 5, error = None, screenshotPath = None\<rparr>,
        \<lparr>browserInstance = None, trace = [SetTimeout 5], ext = 5\<rparr>)"
  by code_simp

text \<open>
  Claim C3, amended. When no condition of the chain holds (none of \<^verbatim>\<open>goto\<close>, \<^verbatim>\<open>click\<close>,
  \<^verbatim>\<open>waitFor\<close>, \<^verbatim>\<open>screenshot\<close>, \<^verbatim>\<open>wait\<close>, \<^verbatim>\<open>scroll\<close>, \<^verbatim>\<open>hover\<close>, \<^verbatim>\<open>press\<close>, \<^verbatim>\<open>evaluate\<close> is present,
  and each of \<^verbatim>\<open>type\<close>, \<^verbatim>\<open>verify\<close>, \<^verbatim>\<open>select\<close> is absent or lacks its companion \<^verbatim>\<open>text\<close>,
  \<^verbatim>\<open>contains\<close>, \<^verbatim>\<open>value\<close>), \<^verbatim>\<open>executeStep\<close> returns a failed result whose error is
  \<^verbatim>\<open>Unknown step type:\<close> followed by the serialised step; it does not throw, and the
  world is unchanged: no driver call is issued.
\<close>

theorem unrecognized_step_fails:
  fixes env :: "'e env" and step :: TestStep and baseUrl screenshotDir :: string
  assumes "goto step = None" and "click step = None"
    and "type step = None \<or> text step = None"
    and "waitFor step = None" and "screenshot step = None"
    and "verify step = None \<or> contains step = None"
    and "wait step = None" and "scroll step = None" and "hover step = None"
    and "select step = None \<or> value step = None"
    and "press step = None" and "evaluate step = None"
  shows "executeStep env page step baseUrl screenshotDir w =
           (Inr \<lparr>StepResult.step = step, success = False, StepResult.duration = 0,
                  error = Some (''Unknown step type: '' @ JSON_stringify env step),
                  screenshotPath = None\<rparr>, w)"
proof -
  have "executeStep_try env page step baseUrl screenshotDir (newResult step) =
          return ((newResult step)\<lparr>error := Some (''Unknown step type: '' @ JSON_stringify env step)\<rparr>)"
    using assms by (auto simp add: executeStep_try_def)
  then show ?thesis
    by (simp add: executeStep_def Let_def await_def try_catch_def return_def newResult_def)
qed

theorem unrecognized_step_fails_witness:
  \<open>executeStep (scriptedEnv ''Dashboard'') 1 (emptyStep\<lparr>type := Some ''#x''\<rparr>)
       ''https://ex.com'' ''./screenshots'' freshWorld
     = (Inr \<lparr>step = emptyStep\<lparr>type := Some ''#x''\<rparr>, success = False,
             StepResult.duration = 0, error = Some ''Unknown step type: {"type":"#x"}'',
             screenshotPath = None\<rparr>, freshWorld)\<close>
proof -
  have \<open>stringifyStep (emptyStep\<lparr>type := Some ''#x''\<rparr>) = ''{"type":"#x"}''\<close>
    by code_simp
  with unrecognized_step_fails [of "emptyStep\<lparr>type := Some ''#x''\<rparr>"
      "scriptedEnv ''Dashboard''" 1 "''https://ex.com''" "''./screenshots''" freshWorld]
  show ?thesis by (simp add: emptyStep_def scriptedEnv_def)
qed

section \<open>Timeouts\<close>

text \<open>
  Claim C7 says that a timeout of 0 given by the step is the one used. The step
  \<^verbatim>\<open>{ goto: "/login", timeout: 0 }\<close> navigates with the default of 30000 ms.
\<close>

theorem timeout_zero_counterexample:
  "timeout (emptyStep\<lparr>goto := Some ''/login'', timeout := Some 0\<rparr>) = Some 0 \<and>
   trace (snd (executeStep (scriptedEnv ''Dashboard'') 1
             (emptyStep\<lparr>goto := Some ''/login'', timeout := Some 0\<rparr>)
             ''https://ex.com'' ''./screenshots'' freshWorld))
     = [PageGoto 1 ''https://ex.com/login'' 30000]"
  by code_simp

text \<open>
  Claim C7, amended. For navigate, click, type, waitFor, verify, hover and select, the
  first driver call of the action (\<^verbatim>\<open>page.goto\<close> for navigate, \<^verbatim>\<open>page.waitForSelector\<close> for
  the others) carries the step's own timeout when it is given and is not 0, and otherwise
  the default: 30000 ms for navigate and waitFor, 10000 ms for the other five.
\<close>

theorem effective_timeout:
  fixes env :: "'e env" and step :: TestStep and baseUrl screenshotDir :: string
  assumes "default_timeout (action_of step) = Some d"
  shows "\<exists>ev rest.
           trace (snd (executeStep env page step baseUrl screenshotDir w)) = trace w @ ev # rest \<and>
           timeout_of ev = Some (case timeout step of None \<Rightarrow> d
                                 | Some t \<Rightarrow> if t = 0 then d else t)"
proof -
  from executeStep_try_first [OF assms]
  obtain ev k where eq: "executeStep_try env page step baseUrl screenshotDir (newResult step)
                           = await (do env ev) k"
    and k: "\<forall>x. keeps (k x)"
    and t: "timeout_of ev = Some (or_number (timeout step) d)"
    by blast
  from k have "\<exists>rest. trace (snd (await (do env ev) k w)) = trace w @ ev # rest"
    by (intro await_do_trace) simp
  then obtain rest where "trace (snd (executeStep env page step baseUrl screenshotDir w))
      = trace w @ ev # rest"
    by (auto simp: executeStep_trace eq)
  moreover have "or_number (timeout step) d
      = (case timeout step of None \<Rightarrow> d | Some t \<Rightarrow> if t = 0 then d else t)"
    by (simp add: or_number_def)
  ultimately show ?thesis using t by auto
qed

theorem effective_timeout_witness:
  "default_timeout (action_of (emptyStep\<lparr>verify := Some ''h1'', contains := Some ''Dashboard'',
       timeout := Some 2500\<rparr>)) = Some 10000 \<and>
   (\<exists>ev rest.
      trace (snd (executeStep (scriptedEnv ''Dashboard'') 1
         (emptyStep\<lparr>verify := Some ''h1'', contains := Some ''Dashboard'', timeout := Some 2500\<rparr>)
         ''https://ex.com'' ''./screenshots'' freshWorld)) = ev # rest \<and>
      timeout_of ev = Some 2500)"
proof -
  have d: "default_timeout (action_of (emptyStep\<lparr>verify := Some ''h1'',
       contains := Some ''Dashboard'', timeout := Some 2500\<rparr>)) = Some 10000"
    by (simp add: default_timeout_def action_of_def emptyStep_def)
  from effective_timeout [OF d, of "scriptedEnv ''Dashboard''" 1 "''https://ex.com''"
      "''./screenshots''" freshWorld] d
  show ?thesis by (simp add: emptyStep_def freshWorld_def)
qed

section \<open>Verification\<close>




text \<open>
  Where the lowering works character by character, as it does on ASCII text, this is
  the same as: some contiguous run of the text itself equals the expected string once
  both are lowered.
\<close>

lemma contains_ignoring_case_map:
  "contains_ignoring_case (map f) txt expected
     \<longleftrightarrow> (\<exists>before run after. txt = before @ run @ after \<and> map f run = map f expected)"
proof
  assume "contains_ignoring_case (map f) txt expected"
  then obtain a b where "map f txt = a @ map f expected @ b"
    by (auto simp: contains_ignoring_case_def)
  then obtain us vs where whole: "txt = us @ vs"
    and rest: "map f vs = map f expected @ b"
    by (metis map_eq_append_conv)
  from rest obtain run ws where "vs = run @ ws" and "map f run = map f expected"
    by (metis map_eq_append_conv)
  with whole show "\<exists>before run after. txt = before @ run @ after \<and> map f run = map f expected"
    by blast
next
  assume "\<exists>before run after. txt = before @ run @ after \<and> map f run = map f expected"
  then obtain before run after where "txt = before @ run @ after"
    and "map f run = map f expected"
    by blast
  then have "map f txt = map f before @ map f expected @ map f after"
    by simp
  then show "contains_ignoring_case (map f) txt expected"
    unfolding contains_ignoring_case_def by blast
qed



section \<open>Runs without stop-on-failure\<close>

text \<open>
  Claim C8. When stop-on-failure is off (not given, or \<^verbatim>\<open>false\<close>) and the flow of the run
  has N steps, the result returned by \<^verbatim>\<open>runTestFlow\<close> has \<^verbatim>\<open>total = N\<close> and N step results,
  one per step and in the order of the flow, however many of them failed; so
  \<^verbatim>\<open>passed + failed = N\<close> as well.
\<close>

theorem all_steps_recorded:
  fixes options :: RunTestOptions
  assumes "RunTestOptions.stopOnFailure options = None
           \<or> RunTestOptions.stopOnFailure options = Some False"
    and prepare: "runTestFlow_prepare env options w = (Inr (fl, cfg), w0)"
    and run: "runTestFlow env options w = (Inr res, w')"
  shows "TestResults.total res = length (TestFlow.steps fl) \<and>
         length (TestResults.steps res) = length (TestFlow.steps fl) \<and>
         map step (TestResults.steps res) = TestFlow.steps fl \<and>
         TestResults.passed res + TestResults.failed res = length (TestFlow.steps fl)"
proof -
  from run obtain fl' base dir h s j w0' browser page w2 rs p f w3 w5 where
    p': "runTestFlow_prepare env options w = (Inr (fl', base, dir, h, s, j), w0')"
    and loop: "runTestFlow_loop env page base dir j s 0 (TestFlow.steps fl') ([], 0, 0) w2
       = (Inr (rs, p, f), w3)"
    and res: "res = \<lparr>TestResults.name = TestFlow.name fl', TestResults.baseUrl = base,
                 TestResults.steps = rs, TestResults.passed = p, TestResults.failed = f,
                 TestResults.total = length (TestFlow.steps fl'),
                 TestResults.duration = now env w5 - now env w2,
                 TestResults.screenshotDir = dir\<rparr>"
    by (rule runTestFlow_Inr)
  from p' prepare have fl: "fl' = fl" by simp
  from prepare_Inr [OF p'] assms(1) have "\<not> s" by auto
  with loop_result [OF loop] obtain new where new: "rs = new"
    "map step new = take (length new) (TestFlow.steps fl')"
    "p = length (filter success new)" "f = length (filter (\<lambda>r. \<not> success r) new)"
    "length new = length (TestFlow.steps fl')"
    by auto
  have "p + f = length new" using new(3,4) by (simp add: sum_length_filter_compl)
  with new res fl show ?thesis by simp
qed

theorem all_steps_recorded_witness:
  "RunTestOptions.stopOnFailure (optionsFor flakyFlow False) = Some False \<and>
   fst (runTestFlow_prepare (scriptedEnv ''Dashboard'') (optionsFor flakyFlow False) freshWorld)
     = Inr (flakyFlow, [], ''./screenshots'', True, False, False) \<and>
   \<not> isl (fst (runTestFlow (scriptedEnv ''Dashboard'') (optionsFor flakyFlow False) freshWorld)) \<and>
   map success (TestResults.steps (projr (fst
      (runTestFlow (scriptedEnv ''Dashboard'') (optionsFor flakyFlow False) freshWorld))))
     = [True, False, True, False, True] \<and>
   TestResults.total (projr (fst
      (runTestFlow (scriptedEnv ''Dashboard'') (optionsFor flakyFlow False) freshWorld))) = 5 \<and>
   length (TestResults.steps (projr (fst
      (runTestFlow (scriptedEnv ''Dashboard'') (optionsFor flakyFlow False) freshWorld)))) = 5"
proof -
  let ?run = "runTestFlow (scriptedEnv ''Dashboard'') (optionsFor flakyFlow False) freshWorld"
  have stop: "RunTestOptions.stopOnFailure (optionsFor flakyFlow False) = Some False"
    by (simp add: optionsFor_def)
  have prep: "fst (runTestFlow_prepare (scriptedEnv ''Dashboard'') (optionsFor flakyFlow False)
      freshWorld) = Inr (flakyFlow, [], ''./screenshots'', True, False, False)"
    by (simp add: run_defs flakyFlow_def)
  have ok: "\<not> isl (fst ?run)" by (simp add: run_defs flakyFlow_def)
  have outcomes: "map success (TestResults.steps (projr (fst ?run)))
     = [True, False, True, False, True]" by (simp add: run_defs flakyFlow_def)
  have len: "length (TestFlow.steps flakyFlow) = 5" by (simp add: flakyFlow_def)
  obtain w0 where p: "runTestFlow_prepare (scriptedEnv ''Dashboard'') (optionsFor flakyFlow False)
      freshWorld = (Inr (flakyFlow, [], ''./screenshots'', True, False, False), w0)"
    using prep by (cases "runTestFlow_prepare (scriptedEnv ''Dashboard'')
      (optionsFor flakyFlow False) freshWorld") simp
  obtain res w' where r: "?run = (Inr res, w')"
    using ok by (cases ?run; cases "fst ?run") auto
  from all_steps_recorded [OF disjI2 [OF stop] p r] len
  have "TestResults.total res = 5" "length (TestResults.steps res) = 5" by simp_all
  with stop prep ok outcomes r show ?thesis by simp
qed

section \<open>Runs with stop-on-failure\<close>

text \<open>
  Claim C1. Let a run with stop-on-failure return a result for a flow of N steps, and
  let the step at index \<open>k\<close> (counted from 0, so step \<open>k + 1\<close> of the claim) have a failed
  result. Then that result is the last one: there are exactly \<open>k + 1\<close> results, those of
  the first \<open>k + 1\<close> steps in order, all before it passed, \<^verbatim>\<open>total = N\<close>,
  \<^verbatim>\<open>passed + failed = k + 1\<close>, and this is less than \<^verbatim>\<open>total\<close> whenever \<open>k + 1 < N\<close>.
\<close>

theorem stop_on_failure:
  fixes options :: RunTestOptions
  assumes "RunTestOptions.stopOnFailure options = Some True"
    and prepare: "runTestFlow_prepare env options w = (Inr (fl, cfg), w0)"
    and run: "runTestFlow env options w = (Inr res, w')"
    and k: "k < length (TestResults.steps res)"
    and failing: "\<not> success (TestResults.steps res ! k)"
  shows "length (TestResults.steps res) = Suc k \<and>
         map step (TestResults.steps res) = take (Suc k) (TestFlow.steps fl) \<and>
         (\<forall>i<k. success (TestResults.steps res ! i)) \<and>
         TestResults.total res = length (TestFlow.steps fl) \<and>
         TestResults.passed res = k \<and> TestResults.failed res = 1 \<and>
         TestResults.passed res + TestResults.failed res = Suc k \<and>
         Suc k \<le> length (TestFlow.steps fl) \<and>
         (Suc k < length (TestFlow.steps fl) \<longrightarrow>
            TestResults.passed res + TestResults.failed res < TestResults.total res)"
proof -
  from run obtain fl' base dir h s j w0' browser page w2 rs p f w3 w5 where
    p': "runTestFlow_prepare env options w = (Inr (fl', base, dir, h, s, j), w0')"
    and loop: "runTestFlow_loop env page base dir j s 0 (TestFlow.steps fl') ([], 0, 0) w2
       = (Inr (rs, p, f), w3)"
    and res: "res = \<lparr>TestResults.name = TestFlow.name fl', TestResults.baseUrl = base,
                 TestResults.steps = rs, TestResults.passed = p, TestResults.failed = f,
                 TestResults.total = length (TestFlow.steps fl'),
                 TestResults.duration = now env w5 - now env w2,
                 TestResults.screenshotDir = dir\<rparr>"
    by (rule runTestFlow_Inr)
  from p' prepare have fl: "fl' = fl" by simp
  from prepare_Inr [OF p'] assms(1) have s by auto
  with loop_result [OF loop] have
    steps: "map step rs = take (length rs) (TestFlow.steps fl)"
    and le: "length rs \<le> length (TestFlow.steps fl)"
    and p: "p = length (filter success rs)"
    and f: "f = length (filter (\<lambda>r. \<not> success r) rs)"
    and before: "\<forall>i. Suc i < length rs \<longrightarrow> success (rs ! i)"
    unfolding fl by auto
  from k failing res have k': "k < length rs" and bad: "\<not> success (rs ! k)" by simp_all
  from before bad have "\<not> Suc k < length rs" by blast
  with k' have len: "length rs = Suc k" by simp
  then have split: "rs = take k rs @ [rs ! k]"
    by (metis lessI take_Suc_conv_app_nth take_all_iff le_refl)
  have good: "\<forall>r \<in> set (take k rs). success r"
  proof
    fix r assume "r \<in> set (take k rs)"
    then obtain i where "i < k" and "r = rs ! i"
      using len by (auto simp: in_set_conv_nth)
    with before len show "success r" by simp
  qed
  have pk: "p = k"
  proof -
    have "filter success rs = filter success (take k rs) @ filter success [rs ! k]"
      by (subst split) simp
    also have "\<dots> = take k rs" using good bad by simp
    finally show ?thesis using p len by simp
  qed
  have "p + f = length rs" using p f by (simp add: sum_length_filter_compl)
  with pk len have fk: "f = 1" by simp
  have early: "\<forall>i<k. success (rs ! i)" using before len by simp
  show ?thesis using res fl steps le len pk fk early by simp
qed

theorem stop_on_failure_witness:
  "RunTestOptions.stopOnFailure (optionsFor flakyFlow True) = Some True \<and>
   fst (runTestFlow_prepare (scriptedEnv ''Dashboard'') (optionsFor flakyFlow True) freshWorld)
     = Inr (flakyFlow, [], ''./screenshots'', True, True, False) \<and>
   \<not> isl (fst (runTestFlow (scriptedEnv ''Dashboard'') (optionsFor flakyFlow True) freshWorld)) \<and>
   map success (TestResults.steps (projr (fst
      (runTestFlow (scriptedEnv ''Dashboard'') (optionsFor flakyFlow True) freshWorld))))
     = [True, False] \<and>
   TestResults.total (projr (fst
      (runTestFlow (scriptedEnv ''Dashboard'') (optionsFor flakyFlow True) freshWorld))) = 5 \<and>
   TestResults.passed (projr (fst
      (runTestFlow (scriptedEnv ''Dashboard'') (optionsFor flakyFlow True) freshWorld))) = 1 \<and>
   TestResults.failed (projr (fst
      (runTestFlow (scriptedEnv ''Dashboard'') (optionsFor flakyFlow True) freshWorld))) = 1"
proof -
  let ?run = "runTestFlow (scriptedEnv ''Dashboard'') (optionsFor flakyFlow True) freshWorld"
  have stop: "RunTestOptions.stopOnFailure (optionsFor flakyFlow True) = Some True"
    by (simp add: optionsFor_def)
  have prep: "fst (runTestFlow_prepare (scriptedEnv ''Dashboard'') (optionsFor flakyFlow True)
      freshWorld) = Inr (flakyFlow, [], ''./screenshots'', True, True, False)"
    by (simp add: run_defs flakyFlow_def)
  have ok: "\<not> isl (fst ?run)" by (simp add: run_defs flakyFlow_def)
  have outcomes: "map success (TestResults.steps (projr (fst ?run))) = [True, False]"
    by (simp add: run_defs flakyFlow_def)
  have len: "length (TestFlow.steps flakyFlow) = 5" by (simp add: flakyFlow_def)
  obtain w0 where p: "runTestFlow_prepare (scriptedEnv ''Dashboard'') (optionsFor flakyFlow True)
      freshWorld = (Inr (flakyFlow, [], ''./screenshots'', True, True, False), w0)"
    using prep by (cases "runTestFlow_prepare (scriptedEnv ''Dashboard'')
      (optionsFor flakyFlow True) freshWorld") simp
  obtain res w' where r: "?run = (Inr res, w')"
    using ok by (cases ?run; cases "fst ?run") auto
  from outcomes r have o: "map success (TestResults.steps res) = [True, False]" by simp
  then have "length (map success (TestResults.steps res)) = 2" by simp
  then have k: "1 < length (TestResults.steps res)" by simp
  from o have "map success (TestResults.steps res) ! 1 = False" by simp
  with k have bad: "\<not> success (TestResults.steps res ! 1)" by simp
  from stop_on_failure [OF stop p r k bad] len
  have "TestResults.total res = 5" "TestResults.passed res = 1" "TestResults.failed res = 1"
    by simp_all
  with stop prep ok outcomes r show ?thesis by simp
qed

section \<open>The browser cache after a run\<close>

text \<open>
  Claim C10. When \<^verbatim>\<open>runTestFlow\<close> has returned, \<^verbatim>\<open>browserInstance\<close> still holds a browser
  \<open>b\<close> for which the run issued \<^verbatim>\<open>browser.close()\<close> (the call returned, or the run would
  have thrown), and \<^verbatim>\<open>launchBrowser\<close>, with any options, returns this \<open>b\<close> and leaves the
  world as it is: nothing is launched.
\<close>

theorem closed_browser_stays_cached:
  fixes options :: RunTestOptions
  assumes run: "runTestFlow env options w = (Inr res, w')"
  shows "\<exists>b before after.
           browserInstance w' = Some b \<and>
           trace w' = trace w @ before @ BrowserClose b # after \<and>
           (\<forall>opts. launchBrowser env opts w' = (Inr b, w'))"
proof -
  from run obtain fl base dir h s j w0 browser page w2 rs p f w3 w5 where
    prepare: "runTestFlow_prepare env options w = (Inr (fl, base, dir, h, s, j), w0)"
    and acquire: "runTestFlow_acquire env h w0 = (Inr (browser, page), w2)"
    and loop: "runTestFlow_loop env page base dir j s 0 (TestFlow.steps fl) ([], 0, 0) w2
       = (Inr (rs, p, f), w3)"
    and release: "runTestFlow_release env browser page w3 = (Inr (), w5)"
    and cache: "browserInstance w' = browserInstance w5"
    and tail: "\<exists>rest. trace w' = trace w5 @ rest"
    by (rule runTestFlow_Inr)
  from keeps_trace [OF keeps_prepare prepare]
  obtain r0 where t0: "trace w0 = trace w @ r0" by blast
  from acquire_Inr [OF acquire]
  obtain r1 where b2: "browserInstance w2 = Some browser" and t2: "trace w2 = trace w0 @ r1"
    by blast
  from keeps_trace [OF keeps_loop loop] keeps_browser [OF keeps_loop loop]
  obtain r2 where b3: "browserInstance w3 = browserInstance w2" and t3: "trace w3 = trace w2 @ r2"
    by blast
  from release_Inr [OF release]
  obtain x where w5: "w5 = w3\<lparr>trace := trace w3 @ [PageClose page, BrowserClose browser], ext := x\<rparr>"
    by blast
  from tail obtain r5 where t5: "trace w' = trace w5 @ r5" by blast
  have cached: "browserInstance w' = Some browser"
    using cache w5 b3 b2 by simp
  have "trace w' = trace w @ (r0 @ r1 @ r2 @ [PageClose page]) @ BrowserClose browser # r5"
    using t0 t2 t3 t5 w5 by simp
  moreover have "\<forall>opts. launchBrowser env opts w' = (Inr browser, w')"
    using cached by (simp add: launchBrowser_def)
  ultimately show ?thesis using cached by blast
qed

theorem closed_browser_stays_cached_witness:
  "\<not> isl (fst (runTestFlow (scriptedEnv ''Dashboard'') (optionsFor flakyFlow True) freshWorld)) \<and>
   browserInstance (snd (runTestFlow (scriptedEnv ''Dashboard'') (optionsFor flakyFlow True)
     freshWorld)) = Some 1 \<and>
   BrowserClose 1 \<in> set (trace (snd (runTestFlow (scriptedEnv ''Dashboard'')
     (optionsFor flakyFlow True) freshWorld))) \<and>
   launchBrowser (scriptedEnv ''Dashboard'')
       \<lparr>BrowserOptions.headless = Some True, slowMo = None, userDataDir = None\<rparr>
       (snd (runTestFlow (scriptedEnv ''Dashboard'') (optionsFor flakyFlow True) freshWorld))
     = (Inr 1, snd (runTestFlow (scriptedEnv ''Dashboard'') (optionsFor flakyFlow True) freshWorld))"
proof -
  let ?run = "runTestFlow (scriptedEnv ''Dashboard'') (optionsFor flakyFlow True) freshWorld"
  have ok: "\<not> isl (fst ?run)"
    by (simp add: run_defs flakyFlow_def)
  have cache: "browserInstance (snd ?run) = Some 1"
    by (simp add: run_defs flakyFlow_def)
  obtain r w' where r: "?run = (Inr r, w')"
    using ok by (cases ?run; cases "fst ?run") auto
  from closed_browser_stays_cached [OF r]
  obtain b before after where "browserInstance w' = Some b"
    and "trace w' = trace freshWorld @ before @ BrowserClose b # after"
    and "\<forall>opts. launchBrowser (scriptedEnv ''Dashboard'') opts w' = (Inr b, w')"
    by blast
  with cache r ok show ?thesis by auto
qed

section \<open>The effective base URL\<close>

text \<open>
  Claim C9 says that an override that is present, the empty string included, wins. With
  the override \<^verbatim>\<open>''\<close> and a flow whose \<^verbatim>\<open>baseUrl\<close> is \<^verbatim>\<open>https://ex.com\<close>, the run uses
  \<^verbatim>\<open>https://ex.com\<close>.
\<close>

theorem empty_override_counterexample:
  "RunTestOptions.baseUrl ((optionsFor loginFlow False)\<lparr>RunTestOptions.baseUrl := Some []\<rparr>)
     = Some [] \<and>
   \<not> isl (fst (runTestFlow (scriptedEnv ''Dashboard'')
            ((optionsFor loginFlow False)\<lparr>RunTestOptions.baseUrl := Some []\<rparr>) freshWorld)) \<and>
   TestResults.baseUrl (projr (fst (runTestFlow (scriptedEnv ''Dashboard'')
            ((optionsFor loginFlow False)\<lparr>RunTestOptions.baseUrl := Some []\<rparr>) freshWorld)))
     = ''https://ex.com''"
  by (simp add: run_defs loginFlow_def)

text \<open>
  Claim C9, amended. The base URL of a run, which is also the \<^verbatim>\<open>baseUrl\<close> of its result,
  is the override when it is present and not empty, otherwise the flow's own \<^verbatim>\<open>baseUrl\<close>
  when it is present, otherwise the empty string.
\<close>

theorem base_url_precedence:
  fixes options :: RunTestOptions
  assumes prepare: "runTestFlow_prepare env options w = (Inr (fl, base, cfg), w0)"
    and run: "runTestFlow env options w = (Inr res, w')"
  shows "TestResults.baseUrl res = base \<and>
         base = (case RunTestOptions.baseUrl options of
                   Some u \<Rightarrow> if u \<noteq> [] then u
                             else (case TestFlow.baseUrl fl of Some v \<Rightarrow> v | None \<Rightarrow> [])
                 | None \<Rightarrow> (case TestFlow.baseUrl fl of Some v \<Rightarrow> v | None \<Rightarrow> []))"
proof -
  from run obtain fl' base' dir h s j w0' browser page w2 rs p f w3 w5 where
    p': "runTestFlow_prepare env options w = (Inr (fl', base', dir, h, s, j), w0')"
    and res: "res = \<lparr>TestResults.name = TestFlow.name fl', TestResults.baseUrl = base',
                 TestResults.steps = rs, TestResults.passed = p, TestResults.failed = f,
                 TestResults.total = length (TestFlow.steps fl'),
                 TestResults.duration = now env w5 - now env w2,
                 TestResults.screenshotDir = dir\<rparr>"
    by (rule runTestFlow_Inr)
  from p' prepare have same: "fl' = fl" "base' = base" by simp_all
  from prepare_Inr [OF p'] have "base = effectiveBaseUrl (RunTestOptions.baseUrl options) fl"
    using same by simp
  then have "base = (case RunTestOptions.baseUrl options of
                   Some u \<Rightarrow> if u \<noteq> [] then u
                             else (case TestFlow.baseUrl fl of Some v \<Rightarrow> v | None \<Rightarrow> [])
                 | None \<Rightarrow> (case TestFlow.baseUrl fl of Some v \<Rightarrow> v | None \<Rightarrow> []))"
    by (auto simp: effectiveBaseUrl_def truthy_def split: option.splits)
  with res same show ?thesis by simp
qed

theorem base_url_precedence_witness:
  "fst (runTestFlow_prepare (scriptedEnv ''Dashboard'')
      ((optionsFor loginFlow False)\<lparr>RunTestOptions.baseUrl := Some ''http://localhost:3000''\<rparr>)
      freshWorld)
     = Inr (loginFlow, ''http://localhost:3000'', ''./screenshots'', True, False, False) \<and>
   \<not> isl (fst (runTestFlow (scriptedEnv ''Dashboard'')
      ((optionsFor loginFlow False)\<lparr>RunTestOptions.baseUrl := Some ''http://localhost:3000''\<rparr>)
      freshWorld)) \<and>
   TestResults.baseUrl (projr (fst (runTestFlow (scriptedEnv ''Dashboard'')
      ((optionsFor loginFlow False)\<lparr>RunTestOptions.baseUrl := Some ''http://localhost:3000''\<rparr>)
      freshWorld))) = ''http://localhost:3000''"
proof -
  let ?options = "(optionsFor loginFlow False)\<lparr>RunTestOptions.baseUrl := Some ''http://localhost:3000''\<rparr>"
  let ?run = "runTestFlow (scriptedEnv ''Dashboard'') ?options freshWorld"
  let ?prep = "runTestFlow_prepare (scriptedEnv ''Dashboard'') ?options freshWorld"
  have prep: "fst ?prep
     = Inr (loginFlow, ''http://localhost:3000'', ''./screenshots'', True, False, False)"
    by (simp add: run_defs loginFlow_def)
  have ok: "\<not> isl (fst ?run)"
    by (simp add: run_defs loginFlow_def)
  obtain w0 where p: "?prep
     = (Inr (loginFlow, ''http://localhost:3000'', ''./screenshots'', True, False, False), w0)"
    using prep by (cases ?prep) simp
  obtain res w' where r: "?run = (Inr res, w')"
    using ok by (cases ?run; cases "fst ?run") auto
  from base_url_precedence [OF p r] have "TestResults.baseUrl res = ''http://localhost:3000''"
    by simp
  with prep ok r show ?thesis by simp
qed

section \<open>What the duration of a run covers\<close>

text \<open>
  Claim C5 says that the duration of a run is measured from before the browser is
  launched. In the scripted run of the login flow the clock shows 0 at the start, 1000
  once the browser and the page are there, and 1200 at the end; the duration of the
  result is 200, less than the launch alone took.
\<close>

theorem acquisition_not_timed_counterexample:
  "now (scriptedEnv ''Dashboard'') freshWorld = 0 \<and>
   now (scriptedEnv ''Dashboard'')
     (snd (runTestFlow_acquire (scriptedEnv ''Dashboard'') True
        (snd (runTestFlow_prepare (scriptedEnv ''Dashboard'') (optionsFor loginFlow False)
           freshWorld)))) = 1000 \<and>
   \<not> isl (fst (runTestFlow (scriptedEnv ''Dashboard'') (optionsFor loginFlow False) freshWorld)) \<and>
   now (scriptedEnv ''Dashboard'')
     (snd (runTestFlow (scriptedEnv ''Dashboard'') (optionsFor loginFlow False) freshWorld)) = 1200 \<and>
   TestResults.duration (projr (fst
     (runTestFlow (scriptedEnv ''Dashboard'') (optionsFor loginFlow False) freshWorld))) = 200"
  by (simp add: run_defs loginFlow_def)

text \<open>
  Claim C5, amended. The duration of a result is the clock read after the release of the
  driver session (\<^verbatim>\<open>page.close()\<close> and \<^verbatim>\<open>browser.close()\<close>) minus the clock read after its
  acquisition (\<^verbatim>\<open>launchBrowser\<close> and \<^verbatim>\<open>newPage\<close>), just before the first step: it covers the
  steps and the release, not the acquisition.
\<close>

theorem duration_from_acquired_to_released:
  fixes options :: RunTestOptions
  assumes prepare: "runTestFlow_prepare env options w = (Inr (fl, base, dir, h, s, j), w0)"
    and acquire: "runTestFlow_acquire env h w0 = (Inr (browser, page), w2)"
    and run: "runTestFlow env options w = (Inr res, w')"
  shows "TestResults.duration res =
           now env (snd (runTestFlow_release env browser page
                      (snd (runTestFlow_loop env page base dir j s 0 (TestFlow.steps fl)
                              ([], 0, 0) w2))))
           - now env w2"
proof -
  from run obtain fl' base' dir' h' s' j' w0' browser' page' w2' rs p f w3 w5 where
    p': "runTestFlow_prepare env options w = (Inr (fl', base', dir', h', s', j'), w0')"
    and a': "runTestFlow_acquire env h' w0' = (Inr (browser', page'), w2')"
    and loop: "runTestFlow_loop env page' base' dir' j' s' 0 (TestFlow.steps fl') ([], 0, 0) w2'
       = (Inr (rs, p, f), w3)"
    and release: "runTestFlow_release env browser' page' w3 = (Inr (), w5)"
    and res: "res = \<lparr>TestResults.name = TestFlow.name fl', TestResults.baseUrl = base',
                 TestResults.steps = rs, TestResults.passed = p, TestResults.failed = f,
                 TestResults.total = length (TestFlow.steps fl'),
                 TestResults.duration = now env w5 - now env w2',
                 TestResults.screenshotDir = dir'\<rparr>"
    by (rule runTestFlow_Inr)
  from p' prepare have same: "fl' = fl" "base' = base" "dir' = dir" "h' = h" "s' = s" "j' = j"
    "w0' = w0" by simp_all
  from a' acquire same have same2: "browser' = browser" "page' = page" "w2' = w2" by simp_all
  from loop release res show ?thesis unfolding same same2 by simp
qed

theorem duration_from_acquired_to_released_witness:
  "fst (runTestFlow_prepare (scriptedEnv ''Dashboard'') (optionsFor loginFlow False) freshWorld)
     = Inr (loginFlow, ''https://ex.com'', ''./screenshots'', True, False, False) \<and>
   fst (runTestFlow_acquire (scriptedEnv ''Dashboard'') True
     (snd (runTestFlow_prepare (scriptedEnv ''Dashboard'') (optionsFor loginFlow False)
        freshWorld))) = Inr (1, 1) \<and>
   \<not> isl (fst (runTestFlow (scriptedEnv ''Dashboard'') (optionsFor loginFlow False) freshWorld)) \<and>
   TestResults.duration (projr (fst
     (runTestFlow (scriptedEnv ''Dashboard'') (optionsFor loginFlow False) freshWorld)))
     = now (scriptedEnv ''Dashboard'')
         (snd (runTestFlow_release (scriptedEnv ''Dashboard'') 1 1
            (snd (runTestFlow_loop (scriptedEnv ''Dashboard'') 1 ''https://ex.com''
                    ''./screenshots'' False False 0 (TestFlow.steps loginFlow) ([], 0, 0)
                    (snd (runTestFlow_acquire (scriptedEnv ''Dashboard'') True
                       (snd (runTestFlow_prepare (scriptedEnv ''Dashboard'')
                          (optionsFor loginFlow False) freshWorld))))))))
       - 1000 \<and>
   TestResults.duration (projr (fst
     (runTestFlow (scriptedEnv ''Dashboard'') (optionsFor loginFlow False) freshWorld))) = 200"
proof -
  let ?env = "scriptedEnv ''Dashboard''"
  let ?prep = "runTestFlow_prepare ?env (optionsFor loginFlow False) freshWorld"
  let ?acq = "runTestFlow_acquire ?env True (snd ?prep)"
  let ?run = "runTestFlow ?env (optionsFor loginFlow False) freshWorld"
  have prep: "fst ?prep = Inr (loginFlow, ''https://ex.com'', ''./screenshots'', True, False, False)"
    by (simp add: run_defs loginFlow_def)
  have acq: "fst ?acq = Inr (1, 1)"
    by (simp add: run_defs loginFlow_def)
  have clock: "now ?env (snd ?acq) = 1000"
    by (simp add: run_defs loginFlow_def)
  have ok: "\<not> isl (fst ?run)"
    by (simp add: run_defs loginFlow_def)
  have p: "?prep = (Inr (loginFlow, ''https://ex.com'', ''./screenshots'', True, False, False),
      snd ?prep)"
    using prep by (cases ?prep) simp
  have a: "?acq = (Inr (1, 1), snd ?acq)"
    using acq by (cases ?acq) simp
  obtain res w' where r: "?run = (Inr res, w')"
    using ok by (cases ?run; cases "fst ?run") auto
  have dur: "TestResults.duration (projr (fst ?run)) = 200"
    by (simp add: run_defs loginFlow_def)
  from duration_from_acquired_to_released [OF p a r] clock prep acq ok r dur
  show ?thesis by simp
qed

section \<open>Failures after the loop\<close>

text \<open>
  Claim C6 says that a failure of \<^verbatim>\<open>recordTestRun\<close> neither alters the result nor keeps it
  from the caller and the reporter. With a database that cannot be written, the login
  flow passes all four steps, \<^verbatim>\<open>recordTestRun\<close> is called with 4 of 4 passed, and
  \<^verbatim>\<open>runTestFlow\<close> throws the database error: that call is the last event, no summary is
  printed and no result is returned.
\<close>

theorem persistence_failure_counterexample:
  "fst (runTestFlow (dbDownEnv ''Dashboard'') (optionsFor loginFlow False) freshWorld)
     = Inl (JsError ''SqliteError'' ''unable to open database file'') \<and>
   last (trace (snd (runTestFlow (dbDownEnv ''Dashboard'') (optionsFor loginFlow False)
      freshWorld)))
     = RecordTestRun \<lparr>flow_name = ''Login'', base_url = ''https://ex.com'',
         TestRecord.passed = 4, TestRecord.failed = 0, TestRecord.total = 4, duration_ms = 200,
         created_at = ''2026-01-01T00:00:00.000Z''\<rparr>"
  by (simp add: run_defs dbDownEnv_def loginFlow_def)

text \<open>
  Claim C6, amended. Once the flow is loaded and the driver session acquired, the loop
  itself never throws. An exception of the release (\<^verbatim>\<open>page.close()\<close>, \<^verbatim>\<open>browser.close()\<close>)
  leaves \<^verbatim>\<open>runTestFlow\<close> as it is. So does an exception of \<^verbatim>\<open>recordTestRun\<close>: it is not
  caught, and the result is then neither reported nor returned. When both return, the
  result computed from the loop is the one handed to the reporter and returned.
\<close>

theorem failures_after_the_loop_escape:
  fixes options :: RunTestOptions
  assumes prepare: "runTestFlow_prepare env options w = (Inr (fl, base, dir, h, s, j), w0)"
    and acquire: "runTestFlow_acquire env h w0 = (Inr (browser, page), w2)"
  shows "\<exists>rs p f w3.
      runTestFlow_loop env page base dir j s 0 (TestFlow.steps fl) ([], 0, 0) w2
        = (Inr (rs, p, f), w3) \<and>
      (\<forall>e w5. runTestFlow_release env browser page w3 = (Inl e, w5) \<longrightarrow>
          runTestFlow env options w = (Inl e, w5)) \<and>
      (\<forall>w5. runTestFlow_release env browser page w3 = (Inr (), w5) \<longrightarrow>
         (let results = \<lparr>TestResults.name = TestFlow.name fl, TestResults.baseUrl = base,
                 TestResults.steps = rs, TestResults.passed = p, TestResults.failed = f,
                 TestResults.total = length (TestFlow.steps fl),
                 TestResults.duration = now env w5 - now env w2,
                 TestResults.screenshotDir = dir\<rparr>;
              recordTestRun = do env (RecordTestRun
                \<lparr>flow_name = TestFlow.name fl, base_url = base,
                 TestRecord.passed = p, TestRecord.failed = f,
                 TestRecord.total = length (TestFlow.steps fl),
                 duration_ms = now env w5 - now env w2,
                 created_at = Date_toISOString env (ext w5)\<rparr>)
          in (\<forall>e w6. recordTestRun w5 = (Inl e, w6) \<longrightarrow>
                 runTestFlow env options w = (Inl e, w6)) \<and>
             (\<forall>w6. recordTestRun w5 = (Inr (), w6) \<longrightarrow>
                 runTestFlow env options w =
                   (Inr results,
                    w6\<lparr>trace := trace w6 @
                      [if j then ConsoleLogJsonReport results (Date_toISOString env (ext w6))
                       else ReportSummary results]\<rparr>))))"
proof -
  let ?cfg = "(fl, base, dir, h, s, j)"
  obtain acc w3 where "runTestFlow_loop env page base dir j s 0 (TestFlow.steps fl) ([], 0, 0) w2
        = (Inr acc, w3)"
    using loop_returns by blast
  then obtain rs p f where loop: "runTestFlow_loop env page base dir j s 0 (TestFlow.steps fl)
        ([], 0, 0) w2 = (Inr (rs, p, f), w3)"
    by (cases acc) auto
  have run: "runTestFlow env options w =
      await (runTestFlow_timed env ?cfg browser page) (runTestFlow_finish env ?cfg) w2"
    by (simp add: runTestFlow_def await_def prepare acquire)
  have timed: "runTestFlow_timed env ?cfg browser page w2 =
      (case runTestFlow_release env browser page w3 of
         (Inl e, w5) \<Rightarrow> (Inl e, w5)
       | (Inr u, w5) \<Rightarrow> (Inr (rs, p, f, now env w5 - now env w2), w5))"
    by (simp add: runTestFlow_timed_def try_finally_def await_def loop Let_def
             split: prod.splits sum.splits)
  have thrown: "\<forall>e w5. runTestFlow_release env browser page w3 = (Inl e, w5) \<longrightarrow>
          runTestFlow env options w = (Inl e, w5)"
    by (simp add: run timed await_def)
  have released: "\<forall>w5. runTestFlow_release env browser page w3 = (Inr (), w5) \<longrightarrow>
          runTestFlow env options w =
            runTestFlow_finish env ?cfg (rs, p, f, now env w5 - now env w2) w5"
    by (simp add: run timed await_def)
  show ?thesis
    apply (intro exI conjI)
      apply (rule loop)
     apply (rule thrown)
    apply (intro allI impI)
    apply (simp add: released Let_def runTestFlow_finish_def await_def console_def return_def
             split: prod.splits sum.splits)
    done
qed


theorem failures_after_the_loop_escape_witness:
  "fst (runTestFlow_prepare (dbDownEnv ''Dashboard'') (optionsFor loginFlow False) freshWorld)
     = Inr (loginFlow, ''https://ex.com'', ''./screenshots'', True, False, False) \<and>
   fst (runTestFlow_acquire (dbDownEnv ''Dashboard'') True
     (snd (runTestFlow_prepare (dbDownEnv ''Dashboard'') (optionsFor loginFlow False)
        freshWorld))) = Inr (1, 1) \<and>
   fst (runTestFlow_release (dbDownEnv ''Dashboard'') 1 1
     (snd (runTestFlow_loop (dbDownEnv ''Dashboard'') 1 ''https://ex.com'' ''./screenshots''
        False False 0 (TestFlow.steps loginFlow) ([], 0, 0)
        (snd (runTestFlow_acquire (dbDownEnv ''Dashboard'') True
           (snd (runTestFlow_prepare (dbDownEnv ''Dashboard'') (optionsFor loginFlow False)
              freshWorld))))))) = Inr () \<and>
   fst (runTestFlow (dbDownEnv ''Dashboard'') (optionsFor loginFlow False) freshWorld)
     = Inl (JsError ''SqliteError'' ''unable to open database file'')"
proof -
  let ?env = "dbDownEnv ''Dashboard''"
  let ?prep = "runTestFlow_prepare ?env (optionsFor loginFlow False) freshWorld"
  let ?acq = "runTestFlow_acquire ?env True (snd ?prep)"
  let ?loop = "runTestFlow_loop ?env 1 ''https://ex.com'' ''./screenshots''
        False False 0 (TestFlow.steps loginFlow) ([], 0, 0) (snd ?acq)"
  let ?run = "runTestFlow ?env (optionsFor loginFlow False) freshWorld"
  have prep: "fst ?prep = Inr (loginFlow, ''https://ex.com'', ''./screenshots'', True, False, False)"
    by (simp add: run_defs dbDownEnv_def loginFlow_def)
  have acq: "fst ?acq = Inr (1, 1)"
    by (simp add: run_defs dbDownEnv_def loginFlow_def)
  have rel: "fst (runTestFlow_release ?env 1 1 (snd ?loop)) = Inr ()"
    by (simp add: runTestFlow_release_def await_def do_def call_def dbDownEnv_def scriptedEnv_def
             split: prod.splits)
  have down: "\<And>t w. do ?env (RecordTestRun t) w =
      (Inl (JsError ''SqliteError'' ''unable to open database file''),
       w\<lparr>trace := trace w @ [RecordTestRun t]\<rparr>)"
    by (simp add: do_def call_def dbDownEnv_def scriptedEnv_def)
  have p: "?prep = (Inr (loginFlow, ''https://ex.com'', ''./screenshots'', True, False, False),
      snd ?prep)"
    using prep by (cases ?prep) simp
  have a: "?acq = (Inr (1, 1), snd ?acq)"
    using acq by (cases ?acq) simp
  from failures_after_the_loop_escape [OF p a]
  obtain rs pp f w3 where loop: "?loop = (Inr (rs, pp, f), w3)"
    and rec: "\<forall>w5. runTestFlow_release ?env 1 1 w3 = (Inr (), w5) \<longrightarrow>
         (\<forall>e w6. do ?env (RecordTestRun
                \<lparr>flow_name = TestFlow.name loginFlow, base_url = ''https://ex.com'',
                 TestRecord.passed = pp, TestRecord.failed = f,
                 TestRecord.total = length (TestFlow.steps loginFlow),
                 duration_ms = now ?env w5 - now ?env (snd ?acq),
                 created_at = Date_toISOString ?env (ext w5)\<rparr>) w5 = (Inl e, w6) \<longrightarrow>
                 ?run = (Inl e, w6))"
    unfolding Let_def by blast
  from loop have w3: "w3 = snd ?loop" by simp
  from rel have "runTestFlow_release ?env 1 1 w3
      = (Inr (), snd (runTestFlow_release ?env 1 1 w3))"
    unfolding w3 by (cases "runTestFlow_release ?env 1 1 (snd ?loop)") simp
  from rec [rule_format, OF this down]
  have "fst ?run = Inl (JsError ''SqliteError'' ''unable to open database file'')" by simp
  with prep acq rel show ?thesis by simp
qed

end
